theory Spec2Isabelle
  imports Complex_Main "HOL-Library.Multiset" "HOL-Library.Log_Nat"
begin

section \<open>Strings and the runtime's string operations\<close>

text \<open>
  A JavaScript string is modelled as a \<^typ>\<open>string\<close>: a list of 8-bit characters, which
  covers the code units below 256. \<open>toLowerCase\<close> is modelled on the ASCII letters, the
  only letters that occur in the extension tables of the program; every other character is
  left as it is.
\<close>

definition NL :: char where
  "NL = CHR 0x0A"

definition DQ :: char where
  "DQ = CHR 0x22"

definition BSL :: char where
  "BSL = CHR 0x5C"

definition lowerChar :: "char \<Rightarrow> char" where
  "lowerChar c =
     (case map_of (zip ''ABCDEFGHIJKLMNOPQRSTUVWXYZ'' ''abcdefghijklmnopqrstuvwxyz'') c of
        Some d \<Rightarrow> d
      | None \<Rightarrow> c)"

definition toLowerCase :: "string \<Rightarrow> string" where
  "toLowerCase s = map lowerChar s"

text \<open>\<open>s.split(c)\<close> for a one-character separator: never an empty array.\<close>

fun split_on :: "char \<Rightarrow> string \<Rightarrow> string list" where
  "split_on c [] = [[]]"
| "split_on c (x # xs) =
     (if x = c then [] # split_on c xs
      else (let r = split_on c xs in (x # hd r) # tl r))"

text \<open>\<open>parts.join(sep)\<close>.\<close>

fun join :: "string \<Rightarrow> string list \<Rightarrow> string" where
  "join sep [] = []"
| "join sep [l] = l"
| "join sep (l # m # ls) = l @ sep @ join sep (m # ls)"

text \<open>\<open>s.lastIndexOf(c)\<close>: \<open>None\<close> stands for the result \<open>-1\<close>.\<close>

fun lastIndexOf :: "char \<Rightarrow> string \<Rightarrow> nat option" where
  "lastIndexOf c [] = None"
| "lastIndexOf c (x # xs) =
     (case lastIndexOf c xs of
        Some i \<Rightarrow> Some (Suc i)
      | None \<Rightarrow> (if x = c then Some 0 else None))"

text \<open>\<open>s.startsWith(p)\<close>.\<close>

definition startsWith :: "string \<Rightarrow> string \<Rightarrow> bool" where
  "startsWith s p = (take (length p) s = p)"

section \<open>The exclusion filter (file-filter-utils)\<close>

definition BINARY_EXTENSIONS :: "string list" where
  "BINARY_EXTENSIONS =
     [''.png'', ''.jpg'', ''.jpeg'', ''.gif'', ''.bmp'', ''.svg'', ''.ico'', ''.webp'',
      ''.pdf'', ''.doc'', ''.docx'', ''.xls'', ''.xlsx'', ''.ppt'', ''.pptx'',
      ''.zip'', ''.tar'', ''.gz'', ''.7z'', ''.rar'', ''.bz2'', ''.xz'',
      ''.mp3'', ''.mp4'', ''.avi'', ''.mov'', ''.wav'', ''.flac'', ''.ogg'', ''.webm'', ''.mkv'',
      ''.class'', ''.jar'', ''.war'', ''.ear'', ''.jmod'',
      ''.exe'', ''.dll'', ''.pdb'', ''.nupkg'', ''.msi'', ''.vsix'',
      ''.o'', ''.obj'', ''.so'', ''.a'', ''.lib'', ''.dylib'', ''.exp'', ''.out'',
      ''.pyc'', ''.pyo'', ''.pyd'', ''.whl'', ''.egg'',
      ''.framework'', ''.app'', ''.ipa'', ''.dsym'', ''.xcarchive'',
      ''.test'',
      ''.rlib'', ''.rmeta'',
      ''.node'', ''.wasm'',
      ''.deb'', ''.rpm'', ''.apk'', ''.aab'', ''.dmg'', ''.pkg'', ''.iso'',
      ''.db'', ''.sqlite'', ''.sqlite3'',
      ''.ttf'', ''.otf'', ''.woff'', ''.woff2'', ''.eot'',
      ''.bin'', ''.dat'', ''.pak'']"

definition EXCLUDED_DIR_PATTERNS :: "string list" where
  "EXCLUDED_DIR_PATTERNS =
     [''node_modules'', ''__pycache__'', ''.git'', ''venv'', ''.venv'', ''env'',
      ''dist'', ''build'', ''.idea'', ''.vscode'', ''target'', ''.pytest_cache'',
      ''.mypy_cache'', ''.tox'', ''htmlcov'', ''.coverage'', ''coverage_html_report'',
      ''.svn'', ''.hg'', ''.eggs'', ''.hypothesis'', ''.ruff_cache'']"

definition EXCLUDED_FILES :: "string list" where
  "EXCLUDED_FILES = [''.DS_Store'', ''Thumbs.db'', ''desktop.ini'', ''.localized'']"

definition CODE_FILE_EXTENSIONS :: "string list" where
  "CODE_FILE_EXTENSIONS =
     [''.go'', ''.rs'', ''.kt'', ''.kts'', ''.lua'', ''.m'', ''.mat'', ''.mlx'', ''.mm'',
      ''.dart'', ''.asm'', ''.s'', ''.S'', ''.rb'', ''.rake'', ''.gemspec'', ''.swift'',
      ''.r'', ''.R'', ''.rmd'', ''.Rmd'',
      ''.cpp'', ''.cc'', ''.cxx'', ''.c++'', ''.hpp'', ''.hh'', ''.hxx'', ''.h++'',
      ''.c'', ''.h'', ''.ts'', ''.tsx'', ''.mts'', ''.cts'',
      ''.js'', ''.jsx'', ''.mjs'', ''.cjs'', ''.py'', ''.pyw'', ''.pyi'',
      ''.java'', ''.cs'', ''.php'', ''.scala'', ''.sc'',
      ''.sh'', ''.bash'', ''.zsh'', ''.fish'', ''.sql'', ''.pl'', ''.pm'',
      ''.hs'', ''.lhs'', ''.ex'', ''.exs'', ''.erl'', ''.hrl'',
      ''.clj'', ''.cljs'', ''.cljc'', ''.edn'', ''.fs'', ''.fsx'', ''.fsi'',
      ''.ml'', ''.mli'', ''.groovy'', ''.gvy'', ''.gy'', ''.gsh'', ''.zig'',
      ''.nim'', ''.nims'', ''.v'', ''.jl'',
      ''.f'', ''.for'', ''.f90'', ''.f95'', ''.f03'', ''.f08'',
      ''.cob'', ''.cbl'', ''.adb'', ''.ads'', ''.pas'', ''.pp'', ''.pro'', ''.pl'',
      ''.lisp'', ''.lsp'', ''.cl'', ''.scm'', ''.ss'', ''.rkt'', ''.d'', ''.cr'']"

definition getFileExtension :: "string \<Rightarrow> string" where
  "getFileExtension filename =
     (case lastIndexOf (CHR ''.'') filename of
        None \<Rightarrow> []
      | Some lastDot \<Rightarrow> toLowerCase (drop lastDot filename))"

definition isCodeFile :: "string \<Rightarrow> bool" where
  "isCodeFile filename = (getFileExtension filename \<in> set CODE_FILE_EXTENSIONS)"

definition shouldExcludeDir :: "string \<Rightarrow> bool" where
  "shouldExcludeDir dirName = (dirName \<in> set EXCLUDED_DIR_PATTERNS)"

text \<open>The loop over \<open>pathParts[0 .. length - 2]\<close>, returning at the first excluded part.\<close>

definition shouldExcludePath :: "string \<Rightarrow> bool" where
  "shouldExcludePath p =
     (let pathParts = split_on (CHR ''/'') p
      in list_ex shouldExcludeDir (butlast pathParts))"

text \<open>
  \<open>filepath.split('/').pop() || filepath\<close>: the last part, or the whole path when the
  last part is the empty string.
\<close>

definition shouldExcludeFile :: "string \<Rightarrow> bool" where
  "shouldExcludeFile filepath =
     (let popped = last (split_on (CHR ''/'') filepath);
          filename = (if popped = [] then filepath else popped)
      in if filename \<in> set EXCLUDED_FILES then True
         else if startsWith filename ''._'' then True
         else getFileExtension filename \<in> set BINARY_EXTENSIONS)"

text \<open>\<open>filterCodeFiles\<close> is generic in the element type; \<open>pathOf\<close> reads its \<open>path\<close>.\<close>

definition filterCodeFiles :: "('a \<Rightarrow> string) \<Rightarrow> 'a list \<Rightarrow> 'a list" where
  "filterCodeFiles pathOf files =
     filter (\<lambda>file. if shouldExcludePath (pathOf file) then False
                     else \<not> shouldExcludeFile (pathOf file)) files"

section \<open>Files\<close>

record FileEntry =
  path :: string
  name :: string
  content :: string
  originalContent :: "string option"
  isDirectory :: bool
  lineCount :: "nat option"

section \<open>The sampler (sampling-utils)\<close>

text \<open>
  \<open>detectLanguage\<close> lives in language-utils, which is not among the sources: every
  function that calls it takes it as the parameter \<open>dl\<close>, a function from a path to a
  language label. The numeric options are JavaScript numbers; the model takes the finite
  ones, as rationals, and computes with them exactly (\<open>NaN\<close> and the infinities are not
  values of the model). The comparisons, \<open>Math.min\<close> and \<open>Math.ceil\<close> of the runtime
  are exact. Its quotient \<open>maxFiles / size\<close> and its difference
  \<open>maxFiles - samples.length\<close> are rounded to a double, and the loops see them only
  through the sign of the difference and through \<open>Math.ceil\<close> of the quotient, capped by
  an array length (below \<open>2^32\<close>): the rounding changes these only where a positive
  quotient underflows to zero, for a \<open>maxFiles\<close> below \<open>2^-1043\<close>, where the runtime
  visits no index and the model visits one.
\<close>

record SamplingOptions =
  maxFiles :: "rat option"
  maxPerLanguage :: "rat option"
  prioritizeDiversity :: "bool option"
  priorityLanguages :: "string list option"

record SamplingStats =
  totalFiles :: nat
  sampledFiles :: nat
  languageDistribution :: "string \<rightharpoonup> nat"

record SamplingResult =
  samples :: "FileEntry list"
  remaining :: "FileEntry list"
  stats :: SamplingStats

text \<open>
  A \<open>Map<string, FileEntry[]>\<close> iterates in insertion order: an association list, where
  \<open>set\<close> of a present key keeps its position and \<open>set\<close> of a new key appends.
\<close>

type_synonym groups = "(string \<times> FileEntry list) list"

fun groups_set :: "string \<Rightarrow> FileEntry list \<Rightarrow> groups \<Rightarrow> groups" where
  "groups_set k v [] = [(k, v)]"
| "groups_set k v ((k', v') # g) =
     (if k' = k then (k, v) # g else (k', v') # groups_set k v g)"

text \<open>\<open>groups.get(k) || []\<close>.\<close>

definition groups_get :: "groups \<Rightarrow> string \<Rightarrow> FileEntry list" where
  "groups_get g k = (case map_of g k of None \<Rightarrow> [] | Some v \<Rightarrow> v)"

fun groupLoop :: "(string \<Rightarrow> string) \<Rightarrow> FileEntry list \<Rightarrow> groups \<Rightarrow> groups" where
  "groupLoop dl [] g = g"
| "groupLoop dl (file # files) g =
     (if isDirectory file \<or> \<not> isCodeFile (path file) then groupLoop dl files g
      else (let language = dl (path file);
                existing = groups_get g language
            in groupLoop dl files (groups_set language (existing @ [file]) g)))"

definition groupFilesByLanguage :: "(string \<Rightarrow> string) \<Rightarrow> FileEntry list \<Rightarrow> groups" where
  "groupFilesByLanguage dl files = groupLoop dl files []"

fun distributionLoop ::
  "(string \<Rightarrow> string) \<Rightarrow> FileEntry list \<Rightarrow> (string \<rightharpoonup> nat) \<Rightarrow> (string \<rightharpoonup> nat)" where
  "distributionLoop dl [] d = d"
| "distributionLoop dl (file # files) d =
     (if isDirectory file then distributionLoop dl files d
      else (let language = dl (path file)
            in distributionLoop dl files
                 (d(language \<mapsto> (case d language of None \<Rightarrow> 0 | Some n \<Rightarrow> n) + 1))))"

definition calculateLanguageDistribution ::
  "(string \<Rightarrow> string) \<Rightarrow> FileEntry list \<Rightarrow> (string \<rightharpoonup> nat)" where
  "calculateLanguageDistribution dl files = distributionLoop dl files Map.empty"

text \<open>\<open>Math.ceil(a / b)\<close> for a divisor that is not zero.\<close>

definition ceilDiv :: "rat \<Rightarrow> rat \<Rightarrow> rat" where
  "ceilDiv a b = of_int \<lceil>a / b\<rceil>"

text \<open>
  \<open>Math.min(langFiles.length, maxPerLanguage, Math.ceil(maxFiles / languageGroups.size))\<close>.
  With no language group the quotient is \<open>+Infinity\<close>, \<open>-Infinity\<close> or \<open>NaN\<close> (for a
  positive, negative or zero \<open>maxFiles\<close>), and the minimum is the minimum of the other two,
  \<open>-Infinity\<close> or \<open>NaN\<close>; the last two make \<open>i < toSample\<close> false at \<open>i = 0\<close>, as
  \<open>-1\<close> does.
\<close>

definition toSamplePriority :: "nat \<Rightarrow> rat \<Rightarrow> rat \<Rightarrow> nat \<Rightarrow> rat" where
  "toSamplePriority len mpl mf sz =
     (if sz = 0 then (if 0 < mf then min (of_nat len) mpl else - 1)
      else min (of_nat len) (min mpl (ceilDiv mf (of_nat sz))))"

text \<open>
  The indices that \<open>for (i = 0; i < toSample; i++)\<close> visits are \<open>0, ..., n - 1\<close> for
  \<open>n\<close> the least natural number that is not below \<open>toSample\<close>.
\<close>

definition visited :: "rat \<Rightarrow> nat" where
  "visited toSample = nat \<lceil>toSample\<rceil>"

text \<open>
  The state of the sampling loops: the array \<open>samples\<close> and the set \<open>sampledPaths\<close>.
  \<open>sampleLoop\<close> is the inner loop
  \<open>for (i = 0; i < toSample && samples.length < maxFiles; i++)\<close>; it is run on the files
  \<open>langFiles[i]\<close> that the index visits (\<open>toSample\<close> is never larger than
  \<open>langFiles.length\<close>, so each \<open>langFiles[i]\<close> exists).
\<close>

type_synonym sampling_state = "FileEntry list \<times> string set"

fun sampleLoop :: "rat \<Rightarrow> FileEntry list \<Rightarrow> sampling_state \<Rightarrow> sampling_state" where
  "sampleLoop mf [] st = st"
| "sampleLoop mf (f # fs) (smp, sampledPaths) =
     (if of_nat (length smp) < mf then
        sampleLoop mf fs
          (if path f \<notin> sampledPaths then (smp @ [f], insert (path f) sampledPaths)
           else (smp, sampledPaths))
      else (smp, sampledPaths))"

text \<open>First pass: \<open>for (const lang of priorityLanguages)\<close>.\<close>

fun priorityPass ::
  "groups \<Rightarrow> rat \<Rightarrow> rat \<Rightarrow> string list \<Rightarrow> sampling_state \<Rightarrow> sampling_state" where
  "priorityPass g mf mpl [] st = st"
| "priorityPass g mf mpl (lang # langs) st =
     (let langFiles = groups_get g lang;
          toSample = toSamplePriority (length langFiles) mpl mf (length g)
      in priorityPass g mf mpl langs (sampleLoop mf (take (visited toSample) langFiles) st))"

text \<open>Second pass: \<open>for (const lang of remainingLanguages)\<close>.\<close>

fun remainingLoop ::
  "groups \<Rightarrow> rat \<Rightarrow> rat \<Rightarrow> rat \<Rightarrow> string list \<Rightarrow> sampling_state \<Rightarrow> sampling_state" where
  "remainingLoop g mf mpl slotsPerLanguage [] st = st"
| "remainingLoop g mf mpl slotsPerLanguage (lang # langs) st =
     (let langFiles = groups_get g lang;
          toSample = min (of_nat (length langFiles)) (min mpl slotsPerLanguage)
      in remainingLoop g mf mpl slotsPerLanguage langs
           (sampleLoop mf (take (visited toSample) langFiles) st))"

definition secondPass ::
  "groups \<Rightarrow> rat \<Rightarrow> rat \<Rightarrow> string list \<Rightarrow> sampling_state \<Rightarrow> sampling_state" where
  "secondPass g mf mpl prio st =
     (let remainingSlots = mf - of_nat (length (fst st));
          remainingLanguages = filter (\<lambda>lang. lang \<notin> set prio) (map fst g)
      in if length remainingLanguages > 0 \<and> remainingSlots > 0 then
           (let slotsPerLanguage = ceilDiv remainingSlots (of_nat (length remainingLanguages))
            in remainingLoop g mf mpl slotsPerLanguage remainingLanguages st)
         else st)"

text \<open>Simple truncation: \<open>for (const file of codeFiles)\<close> with its \<open>break\<close>.\<close>

fun truncateLoop :: "rat \<Rightarrow> FileEntry list \<Rightarrow> sampling_state \<Rightarrow> sampling_state" where
  "truncateLoop mf [] st = st"
| "truncateLoop mf (file # files) (smp, sampledPaths) =
     (if of_nat (length smp) \<ge> mf then (smp, sampledPaths)
      else truncateLoop mf files (smp @ [file], insert (path file) sampledPaths))"

definition codeFilesOf :: "FileEntry list \<Rightarrow> FileEntry list" where
  "codeFilesOf files = filter (\<lambda>f. \<not> isDirectory f \<and> isCodeFile (path f)) files"

definition sampleCodeFiles ::
  "(string \<Rightarrow> string) \<Rightarrow> FileEntry list \<Rightarrow> SamplingOptions \<Rightarrow> SamplingResult" where
  "sampleCodeFiles dl files options =
     (let mf = (case maxFiles options of None \<Rightarrow> 1000 | Some v \<Rightarrow> v);
          mpl = (case maxPerLanguage options of None \<Rightarrow> 100 | Some v \<Rightarrow> v);
          diversity = (case prioritizeDiversity options of None \<Rightarrow> True | Some v \<Rightarrow> v);
          prio = (case priorityLanguages options of None \<Rightarrow> [] | Some v \<Rightarrow> v);
          codeFiles = codeFilesOf files
      in if of_nat (length codeFiles) \<le> mf then
           \<lparr>samples = codeFiles, remaining = [],
            stats = \<lparr>totalFiles = length codeFiles, sampledFiles = length codeFiles,
                     languageDistribution = calculateLanguageDistribution dl codeFiles\<rparr>\<rparr>
         else
           (let languageGroups = groupFilesByLanguage dl codeFiles;
                st = (if diversity then
                        secondPass languageGroups mf mpl prio
                          (priorityPass languageGroups mf mpl prio ([], {}))
                      else truncateLoop mf codeFiles ([], {}));
                remaining' = filter (\<lambda>f. path f \<notin> snd st) codeFiles
            in \<lparr>samples = fst st, remaining = remaining',
                stats = \<lparr>totalFiles = length codeFiles, sampledFiles = length (fst st),
                         languageDistribution = calculateLanguageDistribution dl (fst st)\<rparr>\<rparr>))"

section \<open>The encoder (encoding-utils)\<close>

text \<open>The property \<open>text\<close> of a record is the field \<open>text_r\<close>.\<close>

record JsonlRecord =
  repo :: string
  filename :: string
  text_r :: string

record EncodingOptions =
  repoName :: "string option"

record ExclusionLogEntry =
  entryPath :: string
  reason :: string

record EncodingStats =
  totalFiles_enc :: nat
  includedFiles :: nat
  excludedFiles_enc :: nat
  totalCharacters :: nat
  languageBreakdown :: "string \<rightharpoonup> nat"

record EncodingResult =
  jsonlContent :: string
  stats_enc :: EncodingStats
  excludedFiles :: "string list"
  exclusionLog :: "ExclusionLogEntry list"

definition createJsonlRecord :: "FileEntry \<Rightarrow> string \<Rightarrow> JsonlRecord" where
  "createJsonlRecord file rn = \<lparr>repo = rn, filename = path file, text_r = content file\<rparr>"

text \<open>
  \<open>JSON.stringify\<close> on an object of three string properties: the properties in creation
  order, no white space, each string quoted as ECMAScript's \<open>QuoteJSONString\<close> does:
  the quotation mark, the backslash and the control characters are escaped.
\<close>

definition hexDigit :: "nat \<Rightarrow> char" where
  "hexDigit n = ''0123456789abcdef'' ! (n mod 16)"

definition escapeChar :: "char \<Rightarrow> string" where
  "escapeChar c =
     (if c = DQ then [BSL, DQ]
      else if c = BSL then [BSL, BSL]
      else if c = CHR 0x08 then [BSL, CHR ''b'']
      else if c = CHR 0x09 then [BSL, CHR ''t'']
      else if c = NL then [BSL, CHR ''n'']
      else if c = CHR 0x0C then [BSL, CHR ''f'']
      else if c = CHR 0x0D then [BSL, CHR ''r'']
      else if (of_char c :: nat) < 32 then
        [BSL, CHR ''u'', CHR ''0'', CHR ''0'',
         hexDigit ((of_char c :: nat) div 16), hexDigit ((of_char c :: nat) mod 16)]
      else [c])"

definition quoteJSONString :: "string \<Rightarrow> string" where
  "quoteJSONString s = DQ # concat (map escapeChar s) @ [DQ]"

definition JSON_stringify :: "JsonlRecord \<Rightarrow> string" where
  "JSON_stringify r =
     ''{'' @ quoteJSONString ''repo'' @ '':'' @ quoteJSONString (repo r) @ '','' @
     quoteJSONString ''filename'' @ '':'' @ quoteJSONString (filename r) @ '','' @
     quoteJSONString ''text'' @ '':'' @ quoteJSONString (text_r r) @ ''}''"

text \<open>The loop over \<open>includableFiles\<close>: the lines, the language breakdown, the total.\<close>

type_synonym encoding_state = "string list \<times> (string \<rightharpoonup> nat) \<times> nat"

fun encodeLoop ::
  "(string \<Rightarrow> string) \<Rightarrow> string \<Rightarrow> FileEntry list \<Rightarrow> encoding_state \<Rightarrow> encoding_state" where
  "encodeLoop dl rn [] st = st"
| "encodeLoop dl rn (file # files) (lines, breakdown, tc) =
     (let rec = createJsonlRecord file rn;
          language = dl (path file)
      in encodeLoop dl rn files
           (lines @ [JSON_stringify rec],
            breakdown(language \<mapsto>
              (case breakdown language of None \<Rightarrow> 0 | Some n \<Rightarrow> n) + length (content file)),
            tc + length (content file)))"

definition exclusionReason :: "string \<Rightarrow> string" where
  "exclusionReason p =
     (if shouldExcludePath p then ''Excluded by directory pattern (node_modules, .git, etc.)''
      else if shouldExcludeFile p then ''Binary file (image, archive, executable, etc.)''
      else ''Unknown'')"

text \<open>The loop over \<open>allNonDirFiles\<close>: the excluded paths and the exclusion log.\<close>

fun exclusionLoop ::
  "string set \<Rightarrow> FileEntry list \<Rightarrow> string list \<times> ExclusionLogEntry list \<Rightarrow>
   string list \<times> ExclusionLogEntry list" where
  "exclusionLoop includedPaths [] st = st"
| "exclusionLoop includedPaths (file # files) (excl, entries) =
     (if path file \<notin> includedPaths then
        exclusionLoop includedPaths files
          (excl @ [path file],
           entries @ [\<lparr>entryPath = path file, reason = exclusionReason (path file)\<rparr>])
      else exclusionLoop includedPaths files (excl, entries))"

text \<open>\<open>options.repoName || 'repository'\<close>: an absent or empty name gives the default.\<close>

definition effectiveRepoName :: "EncodingOptions \<Rightarrow> string" where
  "effectiveRepoName options =
     (case repoName options of
        None \<Rightarrow> ''repository''
      | Some rn \<Rightarrow> (if rn = [] then ''repository'' else rn))"

definition encodeFilesWithStats ::
  "(string \<Rightarrow> string) \<Rightarrow> FileEntry list \<Rightarrow> FileEntry list \<Rightarrow> EncodingOptions \<Rightarrow>
   EncodingResult" where
  "encodeFilesWithStats dl files allFiles options =
     (let rn = effectiveRepoName options;
          includableFiles = filter (\<lambda>f. \<not> isDirectory f) files;
          allNonDirFiles = filter (\<lambda>f. \<not> isDirectory f) allFiles;
          enc = encodeLoop dl rn includableFiles ([], Map.empty, 0);
          includedPaths = set (map path includableFiles);
          ex = exclusionLoop includedPaths allNonDirFiles ([], [])
      in \<lparr>jsonlContent = join [NL] (fst enc),
          stats_enc = \<lparr>totalFiles_enc = length allNonDirFiles,
                       includedFiles = length includableFiles,
                       excludedFiles_enc = length (fst ex),
                       totalCharacters = snd (snd enc),
                       languageBreakdown = fst (snd enc)\<rparr>,
          excludedFiles = fst ex,
          exclusionLog = snd ex\<rparr>)"

section \<open>The statistics aggregator (zip-utils)\<close>

record LanguageFileStats =
  language :: string
  lineCount_lang :: nat
  charCount :: nat
  fileCount :: nat
  percentage :: int

record RepositoryStats =
  totalLines :: nat
  totalChars :: nat
  totalFiles_repo :: nat
  languages :: "LanguageFileStats list"
  uploadedAt :: string

text \<open>
  \<open>languageStats\<close> is a \<open>Map\<close> from the language to its statistics, in insertion order:
  the list of its values. An entry that exists is updated in place, a new one is appended.
\<close>

fun statsUpdate :: "string \<Rightarrow> nat \<Rightarrow> nat \<Rightarrow> LanguageFileStats list \<Rightarrow> LanguageFileStats list" where
  "statsUpdate lang lc cc [] =
     [\<lparr>language = lang, lineCount_lang = lc, charCount = cc, fileCount = 1, percentage = 0\<rparr>]"
| "statsUpdate lang lc cc (e # es) =
     (if language e = lang then
        e\<lparr>lineCount_lang := lineCount_lang e + lc, charCount := charCount e + cc,
          fileCount := fileCount e + 1\<rparr> # es
      else e # statsUpdate lang lc cc es)"

type_synonym stats_state = "LanguageFileStats list \<times> nat \<times> nat \<times> nat"

fun statsLoop :: "(string \<Rightarrow> string) \<Rightarrow> FileEntry list \<Rightarrow> stats_state \<Rightarrow> stats_state" where
  "statsLoop dl [] st = st"
| "statsLoop dl (file # files) (languageStats, tls, tcs, tfs) =
     (if isDirectory file then statsLoop dl files (languageStats, tls, tcs, tfs)
      else (let lang = dl (path file);
                lc = (case lineCount file of None \<Rightarrow> 0 | Some n \<Rightarrow> n);
                cc = length (content file)
            in statsLoop dl files (statsUpdate lang lc cc languageStats, tls + lc, tcs + cc, tfs + 1)))"

text \<open>
  \<open>Math.round((lang.lineCount / totalLines) * 100)\<close> is computed in IEEE 754 double
  precision. The line counts are integers, which a double holds exactly below \<open>2^53\<close>. The
  quotient and the product are the exact results rounded to the nearest double, ties to even;
  \<open>Math.round\<close> is exact, \<open>floor (y + 1/2)\<close>.

  \<open>roundToDouble\<close> rounds a positive rational of the normal range (here the arguments lie
  between \<open>2^-53\<close> and 100), and maps 0 to 0: with \<open>binade x\<close> the exponent \<open>e\<close> such that
  \<open>2^e \<le> x < 2^(e+1)\<close>, the doubles around \<open>x\<close> are the multiples of \<open>2^(e-52)\<close>.
  \<open>bitlen\<close> is the number of binary digits of an integer.
\<close>

definition roundTiesToEven :: "rat \<Rightarrow> int" where
  "roundTiesToEven r =
     (let f = \<lfloor>r\<rfloor>; d = r - of_int f
      in if d < 1/2 then f else if 1/2 < d then f + 1 else if even f then f else f + 1)"

definition binade :: "rat \<Rightarrow> int" where
  "binade x =
     (case quotient_of x of
        (p, q) \<Rightarrow> (let e = bitlen p - bitlen q in if 2 powi e \<le> x then e else e - 1))"

definition roundToDouble :: "rat \<Rightarrow> rat" where
  "roundToDouble x =
     (if x \<le> 0 then 0
      else (let u = 2 powi (binade x - 52) in u * of_int (roundTiesToEven (x / u))))"

definition Math_round :: "rat \<Rightarrow> int" where
  "Math_round y = \<lfloor>y + 1/2\<rfloor>"

definition percentageOf :: "nat \<Rightarrow> nat \<Rightarrow> int" where
  "percentageOf lc tls =
     Math_round (roundToDouble (roundToDouble (of_nat lc / of_nat tls) * 100))"

text \<open>The guard \<open>totalLines > 0 ? ... : 0\<close>.\<close>

definition setPercentage :: "nat \<Rightarrow> LanguageFileStats \<Rightarrow> LanguageFileStats" where
  "setPercentage tls lang =
     lang\<lparr>percentage := (if tls > 0 then percentageOf (lineCount_lang lang) tls else 0)\<rparr>"

text \<open>
  \<open>languages.sort((a, b) => b.lineCount - a.lineCount)\<close>: a stable sort, descending by
  line count. \<open>now\<close> is the clock's \<open>new Date().toISOString()\<close>.
\<close>

definition calculateRepositoryStats ::
  "(string \<Rightarrow> string) \<Rightarrow> string \<Rightarrow> FileEntry list \<Rightarrow> RepositoryStats" where
  "calculateRepositoryStats dl now files =
     (case statsLoop dl files ([], 0, 0, 0) of
        (languageStats, tls, tcs, tfs) \<Rightarrow>
          \<lparr>totalLines = tls, totalChars = tcs, totalFiles_repo = tfs,
           languages = sort_key (\<lambda>l. - int (lineCount_lang l))
                         (map (setPercentage tls) languageStats),
           uploadedAt = now\<rparr>)"

section \<open>Definitions that follow the specification's words\<close>

subsection \<open>The file rule as the specification states it\<close>

text \<open>The final \<open>/\<close>-segment of a path: what follows its last \<open>/\<close>.\<close>

definition finalSegment :: "string \<Rightarrow> string" where
  "finalSegment p = rev (takeWhile (\<lambda>c. c \<noteq> CHR ''/'') (rev p))"

text \<open>The lowercased last-dot extension: the last \<open>.\<close> and what follows it, or nothing.\<close>

definition lastDotExtension :: "string \<Rightarrow> string" where
  "lastDotExtension s =
     (if CHR ''.'' \<in> set s
      then toLowerCase (CHR ''.'' # rev (takeWhile (\<lambda>c. c \<noteq> CHR ''.'') (rev s)))
      else [])"

text \<open>A junk filename, the resource-fork prefix, or a binary extension.\<close>

definition excludedName :: "string \<Rightarrow> bool" where
  "excludedName nm =
     (nm \<in> set EXCLUDED_FILES \<or> startsWith nm ''._'' \<or>
      lastDotExtension nm \<in> set BINARY_EXTENSIONS)"

definition shouldExcludeFile_spec :: "string \<Rightarrow> bool" where
  "shouldExcludeFile_spec p = excludedName (finalSegment p)"

text \<open>The name the program examines: the final segment, or the whole path when it is empty.\<close>

definition examinedName :: "string \<Rightarrow> string" where
  "examinedName p = (if finalSegment p = [] then p else finalSegment p)"

subsection \<open>Concrete inputs\<close>

text \<open>
  The entry that \<open>extractZipFile\<close> (zip-utils) builds for an archive member with path
  \<open>p\<close> and content \<open>c\<close>: the name is \<open>path.split('/').pop() || path\<close>, the line
  count \<open>content.split('\n').length\<close>.
\<close>

definition extractedEntry :: "string \<Rightarrow> string \<Rightarrow> FileEntry" where
  "extractedEntry p c =
     \<lparr>path = p,
      name = (let popped = last (split_on (CHR ''/'') p) in if popped = [] then p else popped),
      content = c, originalContent = Some c, isDirectory = False,
      lineCount = Some (length (split_on NL c))\<rparr>"

definition directoryEntry :: "string \<Rightarrow> FileEntry" where
  "directoryEntry p =
     \<lparr>path = p, name = p, content = [], originalContent = None, isDirectory = True,
      lineCount = None\<rparr>"

text \<open>
  Modelled from the spec: \<open>detectLanguage\<close> of language-utils, which is not among the
  sources. The specification describes it as a lookup of the lowercased last-dot extension
  in a static table from extensions to language labels, with \<open>Unknown\<close> for an extension
  that has no entry. The table itself is not given; the entries below are the ones the
  concrete inputs of this theory need. No general theorem depends on this definition: the
  functions of the program take the classifier as a parameter.
\<close>

definition detectLanguage_model :: "string \<Rightarrow> string" where
  "detectLanguage_model p =
     (case map_of
        [(''.py'', ''Python''), (''.pyw'', ''Python''), (''.pyi'', ''Python''),
         (''.js'', ''JavaScript''), (''.jsx'', ''JavaScript''),
         (''.ts'', ''TypeScript''), (''.tsx'', ''TypeScript''),
         (''.go'', ''Go''), (''.rs'', ''Rust'')] (getFileExtension p) of
        None \<Rightarrow> ''Unknown''
      | Some l \<Rightarrow> l)"

definition demoSelected :: "FileEntry list" where
  "demoSelected =
     [extractedEntry ''src/a.py'' ''x = 1'', directoryEntry ''src'',
      extractedEntry ''node_modules/logo.png'' ''PNG'']"

text \<open>
  A selection whose second file lies under \<open>node_modules\<close>, has a binary extension,
  and has a content with a line break, a quotation mark and a backslash.
\<close>

definition demoQuoted :: "FileEntry list" where
  "demoQuoted =
     [extractedEntry ''src/a.py'' ''x = 1'',
      extractedEntry ''node_modules/logo.png'' (''P'' @ [NL, DQ, BSL] @ ''G'')]"

definition demoAll :: "FileEntry list" where
  "demoAll =
     [extractedEntry ''src/a.py'' ''x = 1'', directoryEntry ''src'',
      extractedEntry ''node_modules/logo.png'' ''PNG'',
      extractedEntry ''node_modules/lib.js'' ''y'', extractedEntry ''img/logo.png'' ''PNG'',
      extractedEntry ''src/b.py'' ''z'']"

subsection \<open>The state of the sampling loops\<close>

text \<open>
  What the sampling loops maintain, for a set \<open>C\<close> of candidate files and the budget
  \<open>mf\<close>: the samples are candidates, \<open>sampledPaths\<close> is the set of their paths, no
  path occurs twice, and their number is at most the budget rounded up.
\<close>

definition sampling_inv :: "FileEntry set \<Rightarrow> rat \<Rightarrow> sampling_state \<Rightarrow> bool" where
  "sampling_inv C mf st \<longleftrightarrow>
     set (fst st) \<subseteq> C \<and> snd st = path ` set (fst st) \<and> distinct (map path (fst st)) \<and>
     int (length (fst st)) \<le> \<lceil>mf\<rceil>"

subsection \<open>Inputs for the sampler\<close>

text \<open>
  \<open>scenarioFiles\<close> is a repository of 10,000 code files with pairwise distinct paths in
  three languages: 3,334 Python files \<open>p.py\<close>, \<open>pp.py\<close>, ..., 3,333 JavaScript files
  \<open>j.js\<close>, \<open>jj.js\<close>, ... and 3,333 Go files \<open>g.go\<close>, \<open>gg.go\<close>, ...;
  \<open>scenarioOptions\<close> are the options that \<open>downloadAll\<close> passes, with one priority
  language.
\<close>

definition samplerDemo :: "FileEntry list" where
  "samplerDemo =
     [extractedEntry ''src/a.py'' ''x = 1'', extractedEntry ''src/b.js'' ''y'',
      directoryEntry ''src'', extractedEntry ''src/c.js'' ''z'',
      extractedEntry ''src/d.py'' ''w'', extractedEntry ''README.md'' ''doc'']"

definition scenarioEntry :: "char \<Rightarrow> string \<Rightarrow> nat \<Rightarrow> FileEntry" where
  "scenarioEntry c ext i = extractedEntry (replicate (Suc i) c @ ext) ''x''"

definition scenarioFiles :: "FileEntry list" where
  "scenarioFiles =
     map (scenarioEntry (CHR ''p'') ''.py'') [0..<3334] @
     map (scenarioEntry (CHR ''j'') ''.js'') [0..<3333] @
     map (scenarioEntry (CHR ''g'') ''.go'') [0..<3333]"

definition scenarioOptions :: SamplingOptions where
  "scenarioOptions =
     \<lparr>maxFiles = Some 5000, maxPerLanguage = None, prioritizeDiversity = Some True,
      priorityLanguages = Some [''Python'']\<rparr>"

subsection \<open>Inputs and measures for the aggregator\<close>

text \<open>
  \<open>statsDemo\<close> is the archive with \<open>a.py\<close> (10 lines), \<open>b/node_modules/x.js\<close>
  (5 lines) and \<open>b/c.ts\<close> (20 lines); \<open>statsHalfway\<close> has \<open>a.py\<close> (23 lines) and
  \<open>b.ts\<close> (17 lines), where \<open>(23 / 40) * 100\<close> is \<open>57.49999999999999\<close> in doubles;
  \<open>percentageSum\<close> is the sum of the \<open>percentage\<close> fields over the \<open>languages\<close>
  list.
\<close>

definition statsDemo :: "FileEntry list" where
  "statsDemo =
     [extractedEntry ''a.py'' (replicate 9 NL), extractedEntry ''b/node_modules/x.js'' (replicate 4 NL),
      directoryEntry ''b'', extractedEntry ''b/c.ts'' (replicate 19 NL)]"

definition statsHalfway :: "FileEntry list" where
  "statsHalfway =
     [extractedEntry ''a.py'' (replicate 22 NL), extractedEntry ''b.ts'' (replicate 16 NL)]"

definition percentageSum :: "RepositoryStats \<Rightarrow> int" where
  "percentageSum rs = sum_list (map percentage (languages rs))"

section \<open>Properties of the string operations\<close>

lemma split_on_nonempty: "split_on c s \<noteq> []"
  by (induction s) (auto simp: Let_def)

lemma split_on_absent: "c \<notin> set s \<Longrightarrow> split_on c s = [s]"
  by (induction s) (auto simp: Let_def)

lemma split_on_present: "c \<in> set s \<Longrightarrow> tl (split_on c s) \<noteq> []"
  by (induction s) (auto simp: Let_def split_on_nonempty)

lemma takeWhile_neq_snoc:
  "takeWhile (\<lambda>x. x \<noteq> c) (ys @ [y]) =
     (if c \<in> set ys then takeWhile (\<lambda>x. x \<noteq> c) ys
      else if y = c then ys else ys @ [y])"
  by (induction ys) auto

lemma takeWhile_neq_absent: "c \<notin> set ys \<Longrightarrow> takeWhile (\<lambda>x. x \<noteq> c) ys = ys"
  by (induction ys) auto

lemma last_split_on: "last (split_on c s) = rev (takeWhile (\<lambda>x. x \<noteq> c) (rev s))"
proof (induction s)
  case Nil
  show ?case by simp
next
  case (Cons x xs)
  show ?case
  proof (cases "c \<in> set xs")
    case True
    have ne: "tl (split_on c xs) \<noteq> []" using True by (rule split_on_present)
    have l: "last (tl (split_on c xs)) = last (split_on c xs)"
      using ne by (cases "split_on c xs") auto
    show ?thesis
      using True Cons.IH ne l split_on_nonempty [of c xs]
      by (simp add: Let_def takeWhile_neq_snoc)
  next
    case False
    then show ?thesis
      by (simp add: split_on_absent takeWhile_neq_snoc takeWhile_neq_absent)
  qed
qed

lemma lastIndexOf_None: "lastIndexOf c s = None \<longleftrightarrow> c \<notin> set s"
  by (induction s) (auto split: option.splits)

lemma lastIndexOf_Some:
  "lastIndexOf c s = Some i \<Longrightarrow> drop i s = c # rev (takeWhile (\<lambda>x. x \<noteq> c) (rev s))"
proof (induction s arbitrary: i)
  case Nil
  then show ?case by simp
next
  case (Cons x xs)
  show ?case
  proof (cases "lastIndexOf c xs")
    case None
    then have "c \<notin> set xs" by (simp add: lastIndexOf_None)
    then show ?thesis using Cons.prems None
      by (auto simp: takeWhile_neq_snoc takeWhile_neq_absent split: if_splits)
  next
    case (Some j)
    then have "c \<in> set xs" using lastIndexOf_None [of c xs] by auto
    then show ?thesis using Cons.prems Some Cons.IH [of j]
      by (auto simp: takeWhile_neq_snoc)
  qed
qed

lemma getFileExtension_lastDot: "getFileExtension s = lastDotExtension s"
proof (cases "lastIndexOf (CHR ''.'') s")
  case None
  then have "CHR ''.'' \<notin> set s" by (simp add: lastIndexOf_None)
  then show ?thesis using None
    by (simp add: getFileExtension_def lastDotExtension_def)
next
  case (Some i)
  then have "CHR ''.'' \<in> set s" using lastIndexOf_None [of "CHR ''.''" s] by auto
  then show ?thesis using Some lastIndexOf_Some [OF Some]
    by (simp add: getFileExtension_def lastDotExtension_def)
qed

section \<open>The exclusion filter\<close>

text \<open>
  Claim C7, as stated, fails: the path \<open>._x/\<close> has an empty final segment, which is no junk
  name, has no prefix and no extension, yet \<open>shouldExcludeFile\<close> examines the whole path
  (the fallback \<open>|| filepath\<close>) and returns true.
\<close>

theorem shouldExcludeFile_final_segment_counterexample:
  "shouldExcludeFile ''._x/'' \<and> \<not> shouldExcludeFile_spec ''._x/''"
  by (simp add: shouldExcludeFile_def shouldExcludeFile_spec_def excludedName_def
      finalSegment_def lastDotExtension_def startsWith_def EXCLUDED_FILES_def
      BINARY_EXTENSIONS_def)

text \<open>
  Claim C7, amended: for every path, \<open>shouldExcludeFile\<close> is true if and only if the name
  it examines (the final \<open>/\<close>-segment of the path, or the whole path when that segment is
  empty) is one of the four junk filenames, or begins with \<open>._\<close>, or has a lowercased
  last-dot extension in the binary blocklist; so, whenever the final segment is not empty,
  it is the rule on the final segment. \<open>README.md\<close> maps to false, \<open>image.PNG\<close> to
  true, \<open>lib.js\<close> to false, and \<open>filterCodeFiles\<close> drops \<open>node_modules/lib.js\<close>.
\<close>

theorem shouldExcludeFile_iff_examined_name:
  "(shouldExcludeFile p \<longleftrightarrow> excludedName (examinedName p)) \<and>
   (finalSegment p \<noteq> [] \<longrightarrow> (shouldExcludeFile p \<longleftrightarrow> shouldExcludeFile_spec p)) \<and>
   \<not> shouldExcludeFile ''README.md'' \<and> shouldExcludeFile ''image.PNG'' \<and>
   \<not> shouldExcludeFile ''lib.js'' \<and>
   filterCodeFiles (\<lambda>x. x) [''node_modules/lib.js''] = []"
proof -
  have main: "shouldExcludeFile p \<longleftrightarrow> excludedName (examinedName p)"
    by (simp add: shouldExcludeFile_def excludedName_def examinedName_def finalSegment_def
        last_split_on getFileExtension_lastDot Let_def)
  have seg: "finalSegment p \<noteq> [] \<longrightarrow> (shouldExcludeFile p \<longleftrightarrow> shouldExcludeFile_spec p)"
    using main by (simp add: examinedName_def shouldExcludeFile_spec_def)
  have e1: "\<not> shouldExcludeFile ''README.md''" by code_simp
  have e2: "shouldExcludeFile ''image.PNG''" by code_simp
  have e3: "\<not> shouldExcludeFile ''lib.js''" by code_simp
  have e4: "filterCodeFiles (\<lambda>x. x) [''node_modules/lib.js''] = []" by code_simp
  from main seg e1 e2 e3 e4 show ?thesis by blast
qed

theorem shouldExcludeFile_iff_examined_name_witness:
  "finalSegment ''docs/Thumbs.db'' \<noteq> [] \<and> shouldExcludeFile ''docs/Thumbs.db'' \<and>
   shouldExcludeFile_spec ''docs/Thumbs.db'' \<and>
   excludedName (examinedName ''docs/Thumbs.db'')"
proof -
  have a: "finalSegment ''docs/Thumbs.db'' \<noteq> []" by code_simp
  have b: "shouldExcludeFile ''docs/Thumbs.db''" by code_simp
  from a b shouldExcludeFile_iff_examined_name [of "''docs/Thumbs.db''"]
  show ?thesis by blast
qed

section \<open>The encoder\<close>

lemma hexDigit_not_NL: "hexDigit n \<noteq> NL"
proof -
  have "n mod 16 < length ''0123456789abcdef''" by simp
  then have "hexDigit n \<in> set ''0123456789abcdef''"
    unfolding hexDigit_def by (rule nth_mem)
  then show ?thesis by (auto simp: NL_def)
qed

lemma escapeChar_no_NL: "NL \<notin> set (escapeChar c)"
  using hexDigit_not_NL [of "of_char c div 16"] hexDigit_not_NL [of "of_char c mod 16"]
  by (auto simp: escapeChar_def NL_def DQ_def BSL_def)

lemma quoteJSONString_no_NL: "NL \<notin> set (quoteJSONString s)"
  using escapeChar_no_NL by (auto simp: quoteJSONString_def NL_def DQ_def)

lemma JSON_stringify_no_NL: "NL \<notin> set (JSON_stringify r)"
  using quoteJSONString_no_NL by (auto simp: JSON_stringify_def NL_def)

text \<open>
  The quoting can be read back. An escape sequence determines the character it stands for,
  no escape sequence begins with the quotation mark, so a quoted string ends at its first
  unescaped quotation mark and determines the string that was quoted; a string without
  quotation marks, backslashes and control characters is quoted as it is.
\<close>

lemma hexDigit_inj:
  assumes "a < 16" and "b < 16" and "hexDigit a = hexDigit b"
  shows "a = b"
proof -
  have d: "distinct ''0123456789abcdef''" by simp
  have "''0123456789abcdef'' ! a = ''0123456789abcdef'' ! b"
    using assms by (simp add: hexDigit_def)
  with d assms(1,2) show ?thesis
    by (simp add: nth_eq_iff_index_eq)
qed

lemma escapeChar_cases:
  "(escapeChar c = [c] \<and> c \<noteq> BSL \<and> c \<noteq> DQ \<and> 32 \<le> (of_char c :: nat)) \<or>
   (\<exists>e. escapeChar c = [BSL, e] \<and> e \<noteq> CHR ''u'' \<and>
        (c, e) \<in> {(DQ, DQ), (BSL, BSL), (CHR 0x08, CHR ''b''), (CHR 0x09, CHR ''t''),
                   (NL, CHR ''n''), (CHR 0x0C, CHR ''f''), (CHR 0x0D, CHR ''r'')}) \<or>
   (escapeChar c = [BSL, CHR ''u'', CHR ''0'', CHR ''0'',
         hexDigit ((of_char c :: nat) div 16), hexDigit ((of_char c :: nat) mod 16)] \<and>
      (of_char c :: nat) < 32)"
  by (simp add: escapeChar_def DQ_def BSL_def NL_def)

lemma short_escape_inj:
  assumes "(c, e) \<in> {(DQ, DQ), (BSL, BSL), (CHR 0x08, CHR ''b''), (CHR 0x09, CHR ''t''),
                   (NL, CHR ''n''), (CHR 0x0C, CHR ''f''), (CHR 0x0D, CHR ''r'')}"
      and "(d, e) \<in> {(DQ, DQ), (BSL, BSL), (CHR 0x08, CHR ''b''), (CHR 0x09, CHR ''t''),
                   (NL, CHR ''n''), (CHR 0x0C, CHR ''f''), (CHR 0x0D, CHR ''r'')}"
  shows "c = d"
  using assms by (auto simp: DQ_def BSL_def NL_def)

lemma escapeChar_prefix:
  assumes eq: "escapeChar c @ xs = escapeChar d @ ys"
  shows "c = d \<and> xs = ys"
proof -
  let ?S = "{(DQ, DQ), (BSL, BSL), (CHR 0x08, CHR ''b''), (CHR 0x09, CHR ''t''),
                   (NL, CHR ''n''), (CHR 0x0C, CHR ''f''), (CHR 0x0D, CHR ''r'')}"
  let ?hex = "\<lambda>c. [BSL, CHR ''u'', CHR ''0'', CHR ''0'',
         hexDigit ((of_char c :: nat) div 16), hexDigit ((of_char c :: nat) mod 16)]"
  consider (plain) "escapeChar c = [c]" "c \<noteq> BSL"
    | (short) e where "escapeChar c = [BSL, e]" "e \<noteq> CHR ''u''" "(c, e) \<in> ?S"
    | (hex) "escapeChar c = ?hex c" "(of_char c :: nat) < 32"
    using escapeChar_cases [of c] by blast
  then show ?thesis
  proof cases
    case plain
    consider (plain') "escapeChar d = [d]" "d \<noteq> BSL"
      | (other) r where "escapeChar d = BSL # r"
      using escapeChar_cases [of d] by blast
    then show ?thesis
    proof cases
      case plain'
      with plain eq show ?thesis by simp
    next
      case other
      with plain eq show ?thesis by simp
    qed
  next
    case short
    consider (plain') "escapeChar d = [d]" "d \<noteq> BSL"
      | (short') e' where "escapeChar d = [BSL, e']" "(d, e') \<in> ?S"
      | (hex') r where "escapeChar d = BSL # CHR ''u'' # r"
      using escapeChar_cases [of d] by blast
    then show ?thesis
    proof cases
      case plain'
      with short(1) eq show ?thesis by simp
    next
      case short'
      with short(1) eq have e: "e' = e" and x: "xs = ys" by simp_all
      from short(3) short'(2) [unfolded e] have "c = d" by (rule short_escape_inj)
      with x show ?thesis by simp
    next
      case hex'
      with short(1,2) eq show ?thesis by simp
    qed
  next
    case hex
    consider (plain') "escapeChar d = [d]" "d \<noteq> BSL"
      | (short') e' where "escapeChar d = [BSL, e']" "e' \<noteq> CHR ''u''"
      | (hex') "escapeChar d = ?hex d" "(of_char d :: nat) < 32"
      using escapeChar_cases [of d] by blast
    then show ?thesis
    proof cases
      case plain'
      with hex(1) eq show ?thesis by simp
    next
      case short'
      with hex(1) eq show ?thesis by simp
    next
      case hex'
      with hex(1) eq have h: "hexDigit ((of_char c :: nat) div 16) = hexDigit ((of_char d :: nat) div 16)"
        and l: "hexDigit ((of_char c :: nat) mod 16) = hexDigit ((of_char d :: nat) mod 16)"
        and x: "xs = ys" by simp_all
      have 1: "(of_char c :: nat) div 16 = of_char d div 16"
        using hex(2) hex'(2) h by (intro hexDigit_inj) auto
      have 2: "(of_char c :: nat) mod 16 = of_char d mod 16"
        using l by (intro hexDigit_inj) auto
      have "(of_char c :: nat) = of_char d"
        using 1 2 by (metis div_mult_mod_eq)
      then have "c = d" by simp
      with x show ?thesis by simp
    qed
  qed
qed

lemma escapeChar_head:
  "\<exists>h r. escapeChar c = h # r \<and> h \<noteq> DQ"
  using escapeChar_cases [of c] by (auto simp: DQ_def BSL_def)

lemma escaped_delimited:
  "concat (map escapeChar s) @ DQ # xs = concat (map escapeChar t) @ DQ # ys \<Longrightarrow>
   s = t \<and> xs = ys"
proof (induction s arbitrary: t)
  case Nil
  show ?case
  proof (cases t)
    case Nil
    with Nil.prems show ?thesis by simp
  next
    case (Cons d t')
    obtain h r where "escapeChar d = h # r" "h \<noteq> DQ" using escapeChar_head by blast
    with Nil.prems Cons show ?thesis by simp
  qed
next
  case (Cons c s)
  show ?case
  proof (cases t)
    case Nil
    obtain h r where "escapeChar c = h # r" "h \<noteq> DQ" using escapeChar_head by blast
    with Cons.prems Nil show ?thesis by simp
  next
    case (Cons d t')
    from Cons.prems Cons
    have "escapeChar c @ (concat (map escapeChar s) @ DQ # xs) =
          escapeChar d @ (concat (map escapeChar t') @ DQ # ys)" by simp
    then have cd: "c = d" and rest: "concat (map escapeChar s) @ DQ # xs =
          concat (map escapeChar t') @ DQ # ys"
      using escapeChar_prefix by blast+
    from Cons.IH [OF rest] cd Cons show ?thesis by simp
  qed
qed

lemma quoteJSONString_delimited:
  "quoteJSONString s @ xs = quoteJSONString t @ ys \<Longrightarrow> s = t \<and> xs = ys"
  using escaped_delimited [of s xs t ys] by (simp add: quoteJSONString_def)

lemma quoteJSONString_inj: "quoteJSONString s = quoteJSONString t \<Longrightarrow> s = t"
  using quoteJSONString_delimited [of s "[]" t "[]"] by simp

lemma escapeChar_plain:
  assumes "c \<noteq> DQ" and "c \<noteq> BSL" and "32 \<le> (of_char c :: nat)"
  shows "escapeChar c = [c]"
proof -
  have "c \<noteq> CHR 0x08" "c \<noteq> CHR 0x09" "c \<noteq> NL" "c \<noteq> CHR 0x0C" "c \<noteq> CHR 0x0D"
    using assms(3) by (auto simp: NL_def)
  with assms show ?thesis by (simp add: escapeChar_def)
qed

lemma quoteJSONString_plain:
  assumes "\<forall>c \<in> set s. c \<noteq> DQ \<and> c \<noteq> BSL \<and> 32 \<le> (of_char c :: nat)"
  shows "quoteJSONString s = DQ # s @ [DQ]"
proof -
  have "concat (map escapeChar s) = s" using assms
  proof (induction s)
    case Nil
    show ?case by simp
  next
    case (Cons c s)
    have "escapeChar c = [c]" using Cons.prems by (intro escapeChar_plain) simp_all
    with Cons show ?case by simp
  qed
  then show ?thesis by (simp add: quoteJSONString_def)
qed

lemma JSON_stringify_text:
  "JSON_stringify r =
     [CHR ''{'', DQ] @ ''repo'' @ [DQ, CHR '':''] @ quoteJSONString (repo r) @
     [CHR '','', DQ] @ ''filename'' @ [DQ, CHR '':''] @ quoteJSONString (filename r) @
     [CHR '','', DQ] @ ''text'' @ [DQ, CHR '':''] @ quoteJSONString (text_r r) @ [CHR ''}'']"
  by (simp add: JSON_stringify_def quoteJSONString_def escapeChar_def DQ_def BSL_def NL_def)

lemma JSON_stringify_fields:
  assumes "JSON_stringify r =
     [CHR ''{'', DQ] @ ''repo'' @ [DQ, CHR '':''] @ quoteJSONString a @
     [CHR '','', DQ] @ ''filename'' @ [DQ, CHR '':''] @ quoteJSONString b @
     [CHR '','', DQ] @ ''text'' @ [DQ, CHR '':''] @ quoteJSONString c @ [CHR ''}'']"
  shows "repo r = a \<and> filename r = b \<and> text_r r = c"
proof -
  from assms [unfolded JSON_stringify_text]
  have 1: "quoteJSONString (repo r) @
     ([CHR '','', DQ] @ ''filename'' @ [DQ, CHR '':''] @ quoteJSONString (filename r) @
     [CHR '','', DQ] @ ''text'' @ [DQ, CHR '':''] @ quoteJSONString (text_r r) @ [CHR ''}'']) =
     quoteJSONString a @
     ([CHR '','', DQ] @ ''filename'' @ [DQ, CHR '':''] @ quoteJSONString b @
     [CHR '','', DQ] @ ''text'' @ [DQ, CHR '':''] @ quoteJSONString c @ [CHR ''}''])"
    by simp
  from quoteJSONString_delimited [OF 1]
  have a: "repo r = a" and 2: "quoteJSONString (filename r) @
     ([CHR '','', DQ] @ ''text'' @ [DQ, CHR '':''] @ quoteJSONString (text_r r) @ [CHR ''}'']) =
     quoteJSONString b @
     ([CHR '','', DQ] @ ''text'' @ [DQ, CHR '':''] @ quoteJSONString c @ [CHR ''}''])"
    by simp_all
  from quoteJSONString_delimited [OF 2]
  have b: "filename r = b" and 3: "quoteJSONString (text_r r) @ [CHR ''}''] =
     quoteJSONString c @ [CHR ''}'']"
    by simp_all
  from quoteJSONString_delimited [OF 3] a b show ?thesis by simp
qed

lemma split_on_append_sep:
  "c \<notin> set l \<Longrightarrow> split_on c (l @ c # rest) = l # split_on c rest"
  by (induction l) (auto simp: Let_def)

lemma split_on_join:
  "ls \<noteq> [] \<Longrightarrow> \<forall>l \<in> set ls. c \<notin> set l \<Longrightarrow> split_on c (join [c] ls) = ls"
proof (induction ls)
  case Nil
  then show ?case by simp
next
  case (Cons l ls)
  have IH: "ls \<noteq> [] \<Longrightarrow> split_on c (join [c] ls) = ls"
    using Cons.IH Cons.prems(2) by simp
  have l: "c \<notin> set l" using Cons.prems(2) by simp
  show ?case
  proof (cases ls)
    case Nil
    then show ?thesis using l by (simp add: split_on_absent)
  next
    case (Cons m ms)
    then show ?thesis using IH l by (simp add: split_on_append_sep)
  qed
qed

lemma encodeLoop_lines:
  "fst (encodeLoop dl rn fs st) =
     fst st @ map (\<lambda>f. JSON_stringify (createJsonlRecord f rn)) fs"
proof (induction fs arbitrary: st)
  case Nil
  show ?case by simp
next
  case (Cons f fs)
  obtain ls b t where st: "st = (ls, b, t)" by (cases st) auto
  show ?case unfolding st by (simp add: Let_def Cons.IH)
qed

lemma exclusionLoop_log:
  "snd (exclusionLoop inc fs st) =
     snd st @ map (\<lambda>f. \<lparr>entryPath = path f, reason = exclusionReason (path f)\<rparr>)
                (filter (\<lambda>f. path f \<notin> inc) fs)"
proof (induction fs arbitrary: st)
  case Nil
  show ?case by simp
next
  case (Cons f fs)
  obtain e l where st: "st = (e, l)" by (cases st) auto
  show ?case unfolding st by (simp add: Cons.IH)
qed

lemma jsonlContent_eq:
  "jsonlContent (encodeFilesWithStats dl files allFiles options) =
     join [NL] (map (\<lambda>f. JSON_stringify (createJsonlRecord f (effectiveRepoName options)))
                  (filter (\<lambda>f. \<not> isDirectory f) files))"
  by (simp add: encodeFilesWithStats_def Let_def encodeLoop_lines)

lemma jsonl_lines:
  assumes "filter (\<lambda>f. \<not> isDirectory f) files \<noteq> []"
  shows "split_on NL (jsonlContent (encodeFilesWithStats dl files allFiles options)) =
     map (\<lambda>f. JSON_stringify (createJsonlRecord f (effectiveRepoName options)))
       (filter (\<lambda>f. \<not> isDirectory f) files)"
  unfolding jsonlContent_eq
  by (rule split_on_join) (use assms JSON_stringify_no_NL in auto)

text \<open>
  Claim C1, as stated, fails: called with the repository name \<open>''\<close>, the encoder writes
  \<open>repository\<close> into the \<open>repo\<close> field (\<open>options.repoName || 'repository'\<close>), so the
  line is not the serialization of \<open>{repo: repoName, filename, text}\<close>.
\<close>

theorem jsonl_repo_field_counterexample:
  "split_on NL (jsonlContent (encodeFilesWithStats detectLanguage_model
       [extractedEntry ''a.py'' ''x''] [extractedEntry ''a.py'' ''x''] \<lparr>repoName = Some ''''\<rparr>)) ! 0
   \<noteq> JSON_stringify \<lparr>repo = '''', filename = ''a.py'', text_r = ''x''\<rparr>"
  by code_simp

text \<open>
  Claim C1, amended: for every call \<open>encodeFilesWithStats(selectedFiles, allFiles, {repoName})\<close>
  and every index \<open>i\<close>, the \<open>i\<close>-th line of \<open>jsonlContent\<close> is the JSON serialization of
  \<open>{repo: r, filename: p, text: c}\<close>, where \<open>r\<close> is \<open>repoName\<close> when it is not empty and
  \<open>repository\<close> when it is, and \<open>p\<close> and \<open>c\<close> are the path and the unmodified content of
  the \<open>i\<close>-th non-directory file of \<open>selectedFiles\<close>; the keys are in the order \<open>repo\<close>,
  \<open>filename\<close>, \<open>text\<close>, and the lines are joined by a single newline in the order of the
  selected files.
\<close>

theorem jsonl_lines_in_selected_order:
  fixes rn :: string and files allFiles :: "FileEntry list" and dl :: "string \<Rightarrow> string"
  defines "rp \<equiv> (if rn = [] then ''repository'' else rn)"
  defines "sel \<equiv> filter (\<lambda>f. \<not> isDirectory f) files"
  defines "out \<equiv> jsonlContent (encodeFilesWithStats dl files allFiles \<lparr>repoName = Some rn\<rparr>)"
  shows "out = join [NL] (map (\<lambda>f. JSON_stringify \<lparr>repo = rp, filename = path f, text_r = content f\<rparr>) sel) \<and>
    (\<forall>i < length sel. split_on NL out ! i =
        JSON_stringify \<lparr>repo = rp, filename = path (sel ! i), text_r = content (sel ! i)\<rparr>) \<and>
    (\<forall>r p c. JSON_stringify \<lparr>repo = r, filename = p, text_r = c\<rparr> =
        [CHR ''{'', DQ] @ ''repo'' @ [DQ, CHR '':''] @ quoteJSONString r @
        [CHR '','', DQ] @ ''filename'' @ [DQ, CHR '':''] @ quoteJSONString p @
        [CHR '','', DQ] @ ''text'' @ [DQ, CHR '':''] @ quoteJSONString c @ [CHR ''}''])"
proof -
  have rp: "effectiveRepoName \<lparr>repoName = Some rn\<rparr> = rp"
    by (simp add: effectiveRepoName_def rp_def)
  have a: "out = join [NL] (map (\<lambda>f. JSON_stringify \<lparr>repo = rp, filename = path f, text_r = content f\<rparr>) sel)"
    unfolding out_def sel_def jsonlContent_eq rp by (simp add: createJsonlRecord_def)
  have b: "split_on NL out ! i =
        JSON_stringify \<lparr>repo = rp, filename = path (sel ! i), text_r = content (sel ! i)\<rparr>"
    if "i < length sel" for i
  proof -
    from that have ne: "filter (\<lambda>f. \<not> isDirectory f) files \<noteq> []"
      by (auto simp: sel_def)
    show ?thesis
      unfolding out_def jsonl_lines [OF ne] rp
      using that by (simp add: sel_def createJsonlRecord_def)
  qed
  have c: "JSON_stringify \<lparr>repo = r, filename = p, text_r = c\<rparr> =
        [CHR ''{'', DQ] @ ''repo'' @ [DQ, CHR '':''] @ quoteJSONString r @
        [CHR '','', DQ] @ ''filename'' @ [DQ, CHR '':''] @ quoteJSONString p @
        [CHR '','', DQ] @ ''text'' @ [DQ, CHR '':''] @ quoteJSONString c @ [CHR ''}'']" for r p c
    by (simp add: JSON_stringify_def quoteJSONString_def escapeChar_def DQ_def BSL_def NL_def)
  from a b c show ?thesis by blast
qed

theorem jsonl_lines_in_selected_order_witness:
  "split_on NL (jsonlContent (encodeFilesWithStats detectLanguage_model demoSelected demoAll
       \<lparr>repoName = Some ''demo''\<rparr>)) ! 1 =
   JSON_stringify \<lparr>repo = ''demo'', filename = ''node_modules/logo.png'', text_r = ''PNG''\<rparr>"
proof -
  have l: "1 < length (filter (\<lambda>f. \<not> isDirectory f) demoSelected)"
    by (simp add: demoSelected_def extractedEntry_def directoryEntry_def)
  have s: "filter (\<lambda>f. \<not> isDirectory f) demoSelected ! 1 =
             extractedEntry ''node_modules/logo.png'' ''PNG''"
    by (simp add: demoSelected_def extractedEntry_def directoryEntry_def)
  from l jsonl_lines_in_selected_order
         [where rn = "''demo''" and files = demoSelected and allFiles = demoAll
            and dl = detectLanguage_model]
  have "split_on NL (jsonlContent (encodeFilesWithStats detectLanguage_model demoSelected demoAll
       \<lparr>repoName = Some ''demo''\<rparr>)) ! 1 =
     JSON_stringify \<lparr>repo = (if ''demo'' = [] then ''repository'' else ''demo''),
        filename = path (filter (\<lambda>f. \<not> isDirectory f) demoSelected ! 1),
        text_r = content (filter (\<lambda>f. \<not> isDirectory f) demoSelected ! 1)\<rparr>"
    by blast
  then show ?thesis unfolding s by (simp add: extractedEntry_def)
qed

text \<open>
  Claim C6, as stated, fails at \<open>N = 0\<close>: with no selected file \<open>jsonlContent\<close> is the
  empty string, and splitting the empty string on the newline yields one element.
\<close>

theorem split_count_empty_counterexample:
  "length (split_on NL (jsonlContent (encodeFilesWithStats detectLanguage_model
       [] [extractedEntry ''a.py'' ''x''] \<lparr>repoName = Some ''demo''\<rparr>)))
   \<noteq> length (filter (\<lambda>f. \<not> isDirectory f) ([] :: FileEntry list))"
  by code_simp

text \<open>
  Claim C6, amended: for every repository name and every pair of file lists, if
  \<open>encodeFilesWithStats\<close> encodes \<open>N \<ge> 1\<close> selected non-directory files, then splitting
  \<open>jsonlContent\<close> on the newline yields exactly \<open>N\<close> elements; with \<open>N = 0\<close> it yields
  the single element \<open>''\<close>.
\<close>

theorem split_count_nonempty:
  "(0 < length (filter (\<lambda>f. \<not> isDirectory f) files) \<longrightarrow>
      length (split_on NL (jsonlContent (encodeFilesWithStats dl files allFiles options)))
        = length (filter (\<lambda>f. \<not> isDirectory f) files)) \<and>
   (length (filter (\<lambda>f. \<not> isDirectory f) files) = 0 \<longrightarrow>
      split_on NL (jsonlContent (encodeFilesWithStats dl files allFiles options)) = [[]])"
proof (cases "filter (\<lambda>f. \<not> isDirectory f) files = []")
  case True
  then show ?thesis by (simp add: jsonlContent_eq)
next
  case False
  then show ?thesis by (simp add: jsonl_lines)
qed

theorem split_count_nonempty_witness:
  "0 < length (filter (\<lambda>f. \<not> isDirectory f) demoSelected) \<and>
   length (split_on NL (jsonlContent (encodeFilesWithStats detectLanguage_model demoSelected
       demoAll \<lparr>repoName = Some ''demo''\<rparr>))) = 2"
proof -
  have l: "length (filter (\<lambda>f. \<not> isDirectory f) demoSelected) = 2"
    by (simp add: demoSelected_def extractedEntry_def directoryEntry_def)
  from l split_count_nonempty [of demoSelected detectLanguage_model demoAll
         "\<lparr>repoName = Some ''demo''\<rparr>"]
  show ?thesis by simp
qed

text \<open>
  Claim C8: the exclusion log holds exactly one entry \<open>{path, reason}\<close>, in the order of
  \<open>allFiles\<close>, for each non-directory file of \<open>allFiles\<close> whose path is not the path of a
  selected non-directory file; the reason is the directory-pattern category when
  \<open>shouldExcludePath\<close> holds of the path, else the binary-file category when
  \<open>shouldExcludeFile\<close> holds, else \<open>Unknown\<close>.
\<close>

theorem exclusionLog_entries:
  "exclusionLog (encodeFilesWithStats dl files allFiles options) =
     map (\<lambda>f. \<lparr>entryPath = path f,
               reason = (if shouldExcludePath (path f)
                         then ''Excluded by directory pattern (node_modules, .git, etc.)''
                         else if shouldExcludeFile (path f)
                         then ''Binary file (image, archive, executable, etc.)''
                         else ''Unknown'')\<rparr>)
       (filter (\<lambda>f. \<not> isDirectory f \<and>
                     path f \<notin> path ` {g \<in> set files. \<not> isDirectory g}) allFiles)"
proof -
  have s: "set (map path (filter (\<lambda>f. \<not> isDirectory f) files)) =
             path ` {g \<in> set files. \<not> isDirectory g}"
    by auto
  show ?thesis
    unfolding encodeFilesWithStats_def Let_def s
    by (simp add: exclusionLoop_log exclusionReason_def conj_commute)
qed

theorem exclusionLog_entries_witness:
  "exclusionLog (encodeFilesWithStats detectLanguage_model demoSelected demoAll
       \<lparr>repoName = Some ''demo''\<rparr>) =
     [\<lparr>entryPath = ''node_modules/lib.js'',
       reason = ''Excluded by directory pattern (node_modules, .git, etc.)''\<rparr>,
      \<lparr>entryPath = ''img/logo.png'',
       reason = ''Binary file (image, archive, executable, etc.)''\<rparr>,
      \<lparr>entryPath = ''src/b.py'', reason = ''Unknown''\<rparr>]"
proof -
  have "map (\<lambda>f. \<lparr>entryPath = path f,
               reason = (if shouldExcludePath (path f)
                         then ''Excluded by directory pattern (node_modules, .git, etc.)''
                         else if shouldExcludeFile (path f)
                         then ''Binary file (image, archive, executable, etc.)''
                         else ''Unknown'')\<rparr>)
       (filter (\<lambda>f. \<not> isDirectory f \<and>
                     path f \<notin> path ` {g \<in> set demoSelected. \<not> isDirectory g}) demoAll) =
     [\<lparr>entryPath = ''node_modules/lib.js'',
       reason = ''Excluded by directory pattern (node_modules, .git, etc.)''\<rparr>,
      \<lparr>entryPath = ''img/logo.png'',
       reason = ''Binary file (image, archive, executable, etc.)''\<rparr>,
      \<lparr>entryPath = ''src/b.py'', reason = ''Unknown''\<rparr>]"
    by code_simp
  then show ?thesis
    using exclusionLog_entries
      [of detectLanguage_model demoSelected demoAll "\<lparr>repoName = Some ''demo''\<rparr>"]
    by (simp only:)
qed

text \<open>
  Claim C10: the encoder never re-applies the exclusion policy to its selected files. For
  every non-directory file \<open>f\<close> of the selected files, whatever \<open>shouldExcludePath\<close> and
  \<open>shouldExcludeFile\<close> say of its path, \<open>jsonlContent\<close> has the line
  \<open>{"repo":R,"filename":P,"text":T}\<close>, where \<open>R\<close>, \<open>P\<close> and \<open>T\<close> are the quoted
  repository name, the quoted \<open>f.path\<close> and the quoted \<open>f.content\<close>. That line is the
  serialization of the record the encoder builds for \<open>f\<close>, and of no record with another
  \<open>repo\<close>, \<open>filename\<close> or \<open>text\<close>: the quoting is injective, and it leaves a string
  without quotation marks, backslashes and control characters as it is.
\<close>

theorem selected_files_encoded_verbatim:
  fixes f :: FileEntry and files allFiles :: "FileEntry list" and options :: EncodingOptions
    and dl :: "string \<Rightarrow> string"
  defines "line \<equiv>
     [CHR ''{'', DQ] @ ''repo'' @ [DQ, CHR '':''] @ quoteJSONString (effectiveRepoName options) @
     [CHR '','', DQ] @ ''filename'' @ [DQ, CHR '':''] @ quoteJSONString (path f) @
     [CHR '','', DQ] @ ''text'' @ [DQ, CHR '':''] @ quoteJSONString (content f) @ [CHR ''}'']"
  assumes "f \<in> set files" and "\<not> isDirectory f"
  shows "line \<in> set (split_on NL (jsonlContent (encodeFilesWithStats dl files allFiles options))) \<and>
    JSON_stringify (createJsonlRecord f (effectiveRepoName options)) = line \<and>
    (\<forall>r. JSON_stringify r = line \<longrightarrow>
       repo r = effectiveRepoName options \<and> filename r = path f \<and> text_r r = content f) \<and>
    (\<forall>s t. quoteJSONString s = quoteJSONString t \<longrightarrow> s = t) \<and>
    (\<forall>s. (\<forall>c \<in> set s. c \<noteq> DQ \<and> c \<noteq> BSL \<and> 32 \<le> (of_char c :: nat)) \<longrightarrow>
       quoteJSONString s = [DQ] @ s @ [DQ])"
proof -
  from assms(2,3) have mem: "f \<in> set (filter (\<lambda>f. \<not> isDirectory f) files)" by simp
  then have ne: "filter (\<lambda>f. \<not> isDirectory f) files \<noteq> []"
    by (cases "filter (\<lambda>f. \<not> isDirectory f) files") auto
  have l: "JSON_stringify (createJsonlRecord f (effectiveRepoName options)) = line"
    unfolding line_def JSON_stringify_text by (simp add: createJsonlRecord_def)
  have "JSON_stringify (createJsonlRecord f (effectiveRepoName options))
          \<in> set (split_on NL (jsonlContent (encodeFilesWithStats dl files allFiles options)))"
    unfolding jsonl_lines [OF ne] using mem by simp
  then have a: "line \<in> set (split_on NL (jsonlContent (encodeFilesWithStats dl files allFiles options)))"
    unfolding l .
  have b: "repo r = effectiveRepoName options \<and> filename r = path f \<and> text_r r = content f"
    if "JSON_stringify r = line" for r
    using that unfolding line_def by (rule JSON_stringify_fields)
  have c: "s = t" if "quoteJSONString s = quoteJSONString t" for s t
    using that by (rule quoteJSONString_inj)
  have d: "quoteJSONString s = [DQ] @ s @ [DQ]"
    if "\<forall>c \<in> set s. c \<noteq> DQ \<and> c \<noteq> BSL \<and> 32 \<le> (of_char c :: nat)" for s
    using quoteJSONString_plain [OF that] by simp
  from a l b c d show ?thesis by blast
qed

theorem selected_files_encoded_verbatim_witness:
  "shouldExcludePath ''node_modules/logo.png'' \<and> shouldExcludeFile ''node_modules/logo.png'' \<and>
   [CHR ''{'', DQ] @ ''repo'' @ [DQ, CHR '':'', DQ] @ ''demo'' @
   [DQ, CHR '','', DQ] @ ''filename'' @ [DQ, CHR '':'', DQ] @ ''node_modules/logo.png'' @
   [DQ, CHR '','', DQ] @ ''text'' @ [DQ, CHR '':'', DQ] @
   ''P'' @ [BSL, CHR ''n'', BSL, DQ, BSL, BSL] @ ''G'' @ [DQ, CHR ''}'']
     \<in> set (split_on NL (jsonlContent (encodeFilesWithStats detectLanguage_model demoQuoted
                demoQuoted \<lparr>repoName = Some ''demo''\<rparr>))) \<and>
   quoteJSONString ''node_modules/logo.png'' = [DQ] @ ''node_modules/logo.png'' @ [DQ]"
proof -
  have m: "extractedEntry ''node_modules/logo.png'' (''P'' @ [NL, DQ, BSL] @ ''G'') \<in> set demoQuoted"
    by (simp add: demoQuoted_def)
  have d: "\<not> isDirectory (extractedEntry ''node_modules/logo.png'' (''P'' @ [NL, DQ, BSL] @ ''G''))"
    by (simp add: extractedEntry_def)
  have x: "shouldExcludePath ''node_modules/logo.png'' \<and> shouldExcludeFile ''node_modules/logo.png''"
    by code_simp
  have p: "\<forall>c \<in> set ''node_modules/logo.png''. c \<noteq> DQ \<and> c \<noteq> BSL \<and> 32 \<le> (of_char c :: nat)"
    by (simp add: DQ_def BSL_def)
  have e: "[CHR ''{'', DQ] @ ''repo'' @ [DQ, CHR '':''] @
       quoteJSONString (effectiveRepoName \<lparr>repoName = Some ''demo''\<rparr>) @
     [CHR '','', DQ] @ ''filename'' @ [DQ, CHR '':''] @
       quoteJSONString (path (extractedEntry ''node_modules/logo.png'' (''P'' @ [NL, DQ, BSL] @ ''G''))) @
     [CHR '','', DQ] @ ''text'' @ [DQ, CHR '':''] @
       quoteJSONString (content (extractedEntry ''node_modules/logo.png'' (''P'' @ [NL, DQ, BSL] @ ''G''))) @
     [CHR ''}''] =
     [CHR ''{'', DQ] @ ''repo'' @ [DQ, CHR '':'', DQ] @ ''demo'' @
     [DQ, CHR '','', DQ] @ ''filename'' @ [DQ, CHR '':'', DQ] @ ''node_modules/logo.png'' @
     [DQ, CHR '','', DQ] @ ''text'' @ [DQ, CHR '':'', DQ] @
     ''P'' @ [BSL, CHR ''n'', BSL, DQ, BSL, BSL] @ ''G'' @ [DQ, CHR ''}'']"
    by code_simp
  note t = selected_files_encoded_verbatim
    [where f = "extractedEntry ''node_modules/logo.png'' (''P'' @ [NL, DQ, BSL] @ ''G'')"
       and files = demoQuoted and allFiles = demoQuoted
       and options = "\<lparr>repoName = Some ''demo''\<rparr>" and dl = detectLanguage_model, OF m d]
  from t have 1: "[CHR ''{'', DQ] @ ''repo'' @ [DQ, CHR '':''] @
       quoteJSONString (effectiveRepoName \<lparr>repoName = Some ''demo''\<rparr>) @
     [CHR '','', DQ] @ ''filename'' @ [DQ, CHR '':''] @
       quoteJSONString (path (extractedEntry ''node_modules/logo.png'' (''P'' @ [NL, DQ, BSL] @ ''G''))) @
     [CHR '','', DQ] @ ''text'' @ [DQ, CHR '':''] @
       quoteJSONString (content (extractedEntry ''node_modules/logo.png'' (''P'' @ [NL, DQ, BSL] @ ''G''))) @
     [CHR ''}'']
     \<in> set (split_on NL (jsonlContent (encodeFilesWithStats detectLanguage_model demoQuoted
                demoQuoted \<lparr>repoName = Some ''demo''\<rparr>)))"
    by (rule conjunct1)
  from t p have 2: "quoteJSONString ''node_modules/logo.png'' = [DQ] @ ''node_modules/logo.png'' @ [DQ]"
    by blast
  from x 1 [unfolded e] 2 show ?thesis by blast
qed
section \<open>The sampler\<close>

subsection \<open>Grouping by language\<close>

lemma codeFilesOf_idem: "codeFilesOf (codeFilesOf files) = codeFilesOf files"
  by (simp add: codeFilesOf_def)

lemma groups_get_set:
  "groups_get (groups_set k v g) k' = (if k' = k then v else groups_get g k')"
  by (induction g) (auto simp: groups_get_def)

lemma keys_groups_set:
  "map fst (groups_set k v g) = (if k \<in> fst ` set g then map fst g else map fst g @ [k])"
  by (induction g) force+

lemma groups_get_groupLoop:
  "groups_get (groupLoop dl fs g) k =
     groups_get g k @ filter (\<lambda>f. dl (path f) = k) (codeFilesOf fs)"
proof (induction fs arbitrary: g)
  case Nil
  show ?case by (simp add: codeFilesOf_def)
next
  case (Cons f fs)
  show ?case
    by (simp add: Cons.IH codeFilesOf_def Let_def groups_get_set)
qed

lemma groups_get_groupFiles:
  "groups_get (groupFilesByLanguage dl fs) k = filter (\<lambda>f. dl (path f) = k) (codeFilesOf fs)"
  unfolding groupFilesByLanguage_def groups_get_groupLoop by (simp add: groups_get_def)

lemma keys_groups_set_set: "fst ` set (groups_set k v g) = insert k (fst ` set g)"
proof -
  have "set (map fst (groups_set k v g)) = insert k (fst ` set g)"
    unfolding keys_groups_set by auto
  then show ?thesis by simp
qed

lemma keys_groupLoop:
  "fst ` set (groupLoop dl fs g) = fst ` set g \<union> (\<lambda>f. dl (path f)) ` set (codeFilesOf fs)"
proof (induction fs arbitrary: g)
  case Nil
  show ?case by (simp add: codeFilesOf_def)
next
  case (Cons f fs)
  show ?case
    by (simp add: Cons.IH codeFilesOf_def Let_def keys_groups_set_set)
qed

lemma distinct_keys_groupLoop:
  "distinct (map fst g) \<Longrightarrow> distinct (map fst (groupLoop dl fs g))"
proof (induction fs arbitrary: g)
  case Nil
  then show ?case by simp
next
  case (Cons f fs)
  then show ?case
    by (auto simp: Let_def keys_groups_set)
qed

lemma length_groupFiles:
  "length (groupFilesByLanguage dl fs) = card ((\<lambda>f. dl (path f)) ` set (codeFilesOf fs))"
proof -
  have d: "distinct (map fst (groupFilesByLanguage dl fs))"
    unfolding groupFilesByLanguage_def by (rule distinct_keys_groupLoop) simp
  have s: "set (map fst (groupFilesByLanguage dl fs)) = (\<lambda>f. dl (path f)) ` set (codeFilesOf fs)"
    using keys_groupLoop [of dl fs "[]"] by (simp add: groupFilesByLanguage_def)
  have "length (groupFilesByLanguage dl fs) = length (map fst (groupFilesByLanguage dl fs))"
    by simp
  also have "\<dots> = card (set (map fst (groupFilesByLanguage dl fs)))"
    using d by (simp only: distinct_card)
  finally show ?thesis using s by simp
qed

lemma groups_get_absent: "k \<notin> fst ` set g \<Longrightarrow> groups_get g k = []"
  by (simp add: groups_get_def map_of_eq_None_iff [THEN iffD2])

lemma sampleLoop_extends: "\<exists>ys. fst (sampleLoop mf fs st) = fst st @ ys"
proof (induction fs arbitrary: st)
  case Nil
  show ?case by simp
next
  case (Cons f fs)
  obtain smp sp where st: "st = (smp, sp)" by (cases st) auto
  show ?case
  proof (cases "of_nat (length smp) < mf \<and> path f \<notin> sp")
    case True
    from Cons.IH [of "(smp @ [f], insert (path f) sp)"]
    obtain ys where "fst (sampleLoop mf fs (smp @ [f], insert (path f) sp)) = (smp @ [f]) @ ys"
      by auto
    then show ?thesis using True st by simp
  next
    case False
    then show ?thesis using st Cons.IH [of "(smp, sp)"] by auto
  qed
qed

lemma sampleLoop_count:
  "length (filter P (fst (sampleLoop mf fs st))) \<le> length (filter P (fst st)) + length (filter P fs)"
proof (induction fs arbitrary: st)
  case Nil
  show ?case by simp
next
  case (Cons f fs)
  obtain smp sp where st: "st = (smp, sp)" by (cases st) auto
  show ?case
  proof (cases "of_nat (length smp) < mf \<and> path f \<notin> sp")
    case True
    from Cons.IH [of "(smp @ [f], insert (path f) sp)"] True st
    show ?thesis by auto
  next
    case False
    then show ?thesis using st Cons.IH [of "(smp, sp)"] by (auto simp: le_SucI)
  qed
qed

lemma sampleLoop_inv:
  "set fs \<subseteq> C \<Longrightarrow> sampling_inv C mf st \<Longrightarrow> sampling_inv C mf (sampleLoop mf fs st)"
proof (induction fs arbitrary: st)
  case Nil
  then show ?case by simp
next
  case (Cons f fs)
  obtain smp sp where st: "st = (smp, sp)" by (cases st) auto
  show ?case
  proof (cases "of_nat (length smp) < mf")
    case True
    then have "int (length smp) < \<lceil>mf\<rceil>" by (simp add: less_ceiling_iff)
    then have "sampling_inv C mf (if path f \<notin> sp then (smp @ [f], insert (path f) sp) else (smp, sp))"
      using Cons.prems st by (auto simp: sampling_inv_def)
    then show ?thesis using True st Cons.IH Cons.prems(1) by simp
  next
    case False
    then show ?thesis using st Cons.prems by simp
  qed
qed

subsection \<open>The passes of the sampler\<close>

lemma priorityPass_inv:
  "(\<And>lang. set (groups_get g lang) \<subseteq> C) \<Longrightarrow> sampling_inv C mf st \<Longrightarrow>
   sampling_inv C mf (priorityPass g mf mpl langs st)"
proof (induction langs arbitrary: st)
  case Nil
  then show ?case by simp
next
  case (Cons lang langs)
  have "set (take n (groups_get g lang)) \<subseteq> C" for n
    using Cons.prems(1) [of lang] set_take_subset [of n "groups_get g lang"] by blast
  then show ?case using Cons by (simp add: Let_def sampleLoop_inv)
qed

lemma remainingLoop_inv:
  "(\<And>lang. set (groups_get g lang) \<subseteq> C) \<Longrightarrow> sampling_inv C mf st \<Longrightarrow>
   sampling_inv C mf (remainingLoop g mf mpl spl langs st)"
proof (induction langs arbitrary: st)
  case Nil
  then show ?case by simp
next
  case (Cons lang langs)
  have "set (take n (groups_get g lang)) \<subseteq> C" for n
    using Cons.prems(1) [of lang] set_take_subset [of n "groups_get g lang"] by blast
  then show ?case using Cons by (simp add: Let_def sampleLoop_inv)
qed

lemma secondPass_inv:
  "(\<And>lang. set (groups_get g lang) \<subseteq> C) \<Longrightarrow> sampling_inv C mf st \<Longrightarrow>
   sampling_inv C mf (secondPass g mf mpl prio st)"
  by (simp add: secondPass_def Let_def remainingLoop_inv)

lemma truncateLoop_fst:
  "fst (truncateLoop mf fs st) = fst st @ take (nat (\<lceil>mf\<rceil> - int (length (fst st)))) fs"
proof (induction fs arbitrary: st)
  case Nil
  show ?case by simp
next
  case (Cons f fs)
  obtain smp sp where st: "st = (smp, sp)" by (cases st) auto
  show ?case
  proof (cases "of_nat (length smp) \<ge> mf")
    case True
    then have "\<lceil>mf\<rceil> \<le> int (length smp)" by (simp add: ceiling_le_iff)
    then show ?thesis using True st by simp
  next
    case False
    then have "int (length smp) < \<lceil>mf\<rceil>" by (simp add: less_ceiling_iff)
    then obtain k where k: "nat (\<lceil>mf\<rceil> - int (length smp)) = Suc k"
      by (cases "nat (\<lceil>mf\<rceil> - int (length smp))") auto
    then have k': "nat (\<lceil>mf\<rceil> - int (length (smp @ [f]))) = k" by simp
    show ?thesis using False st Cons.IH [of "(smp @ [f], insert (path f) sp)"] k k'
      by simp
  qed
qed

lemma distinct_paths_codeFilesOf:
  "distinct (map path files) \<Longrightarrow> distinct (map path (codeFilesOf files))"
  unfolding codeFilesOf_def by (rule distinct_map_filter)

lemma sampling_inv_init: "0 \<le> mf \<Longrightarrow> sampling_inv C mf ([], {})"
  by (simp add: sampling_inv_def)

lemma visited_le: "a \<le> b \<Longrightarrow> visited a \<le> visited b"
  unfolding visited_def by (intro nat_mono ceiling_mono)

lemma visited_of_nat: "visited (of_nat n) = n"
  by (simp add: visited_def)

lemma ceilDiv_ge_one: "1 \<le> a \<Longrightarrow> 0 < b \<Longrightarrow> 1 \<le> ceilDiv a b"
proof -
  assume a: "1 \<le> a" and b: "0 < b"
  have "0 < a / b" using a b by simp
  then have "0 < \<lceil>a / b\<rceil>" by (simp only: zero_less_ceiling)
  then have "1 \<le> \<lceil>a / b\<rceil>" by simp
  then have "(of_int 1 :: rat) \<le> of_int \<lceil>a / b\<rceil>" by (simp only: of_int_le_iff)
  then show ?thesis by (simp add: ceilDiv_def)
qed

lemma remainingLoop_extends: "\<exists>ys. fst (remainingLoop g mf mpl spl langs st) = fst st @ ys"
proof (induction langs arbitrary: st)
  case Nil
  show ?case by simp
next
  case (Cons lang langs)
  define st' where
    "st' = sampleLoop mf (take (visited (min (of_nat (length (groups_get g lang))) (min mpl spl)))
             (groups_get g lang)) st"
  obtain ys where ys: "fst st' = fst st @ ys"
    unfolding st'_def using sampleLoop_extends by blast
  obtain zs where zs: "fst (remainingLoop g mf mpl spl langs st') = fst st' @ zs"
    using Cons.IH by blast
  show ?case using ys zs by (simp add: Let_def st'_def [symmetric])
qed

lemma secondPass_extends: "\<exists>ys. fst (secondPass g mf mpl prio st) = fst st @ ys"
  using remainingLoop_extends by (simp add: secondPass_def Let_def)

lemma remainingLoop_length:
  "length (fst (remainingLoop g mf mpl spl langs st)) \<le> length (fst st) + length langs * visited mpl"
proof (induction langs arbitrary: st)
  case Nil
  show ?case by simp
next
  case (Cons lang langs)
  define n where "n = visited (min (of_nat (length (groups_get g lang))) (min mpl spl))"
  define st' where "st' = sampleLoop mf (take n (groups_get g lang)) st"
  have n: "n \<le> visited mpl" unfolding n_def by (rule visited_le) simp
  have "length (filter (\<lambda>_. True) (fst st'))
          \<le> length (filter (\<lambda>_. True) (fst st)) + length (filter (\<lambda>_. True) (take n (groups_get g lang)))"
    unfolding st'_def by (rule sampleLoop_count)
  then have a: "length (fst st') \<le> length (fst st) + visited mpl" using n by simp
  have b: "length (fst (remainingLoop g mf mpl spl langs st')) \<le> length (fst st') + length langs * visited mpl"
    using Cons.IH .
  show ?case using a b by (simp add: Let_def n_def [symmetric] st'_def [symmetric])
qed

lemma remainingLoop_count_other:
  "\<forall>lang \<in> set langs. \<forall>f \<in> set (groups_get g lang). \<not> P f \<Longrightarrow>
   length (filter P (fst (remainingLoop g mf mpl spl langs st))) \<le> length (filter P (fst st))"
proof (induction langs arbitrary: st)
  case Nil
  show ?case by simp
next
  case (Cons lang langs)
  define n where "n = visited (min (of_nat (length (groups_get g lang))) (min mpl spl))"
  define st' where "st' = sampleLoop mf (take n (groups_get g lang)) st"
  have "\<forall>f \<in> set (take n (groups_get g lang)). \<not> P f"
    using Cons.prems set_take_subset [of n "groups_get g lang"] by auto
  then have z: "filter P (take n (groups_get g lang)) = []" by (simp add: filter_empty_conv)
  have a: "length (filter P (fst st')) \<le> length (filter P (fst st))"
    using sampleLoop_count [of P mf "take n (groups_get g lang)" st] z by (simp add: st'_def)
  have b: "length (filter P (fst (remainingLoop g mf mpl spl langs st'))) \<le> length (filter P (fst st'))"
    using Cons.IH Cons.prems by simp
  show ?case using a b by (simp add: Let_def n_def [symmetric] st'_def [symmetric])
qed

lemma secondPass_cases:
  "secondPass g mf mpl prio st = st \<or>
   (\<exists>spl. secondPass g mf mpl prio st =
      remainingLoop g mf mpl spl (filter (\<lambda>lang. lang \<notin> set prio) (map fst g)) st)"
proof -
  define rl where "rl = filter (\<lambda>lang. lang \<notin> set prio) (map fst g)"
  have eq: "secondPass g mf mpl prio st =
      (if length rl > 0 \<and> mf - of_nat (length (fst st)) > 0
       then remainingLoop g mf mpl (ceilDiv (mf - of_nat (length (fst st))) (of_nat (length rl))) rl st
       else st)"
    unfolding secondPass_def Let_def rl_def ..
  have "secondPass g mf mpl prio st = st \<or>
        (\<exists>spl. secondPass g mf mpl prio st = remainingLoop g mf mpl spl rl st)"
    unfolding eq by (cases "length rl > 0 \<and> mf - of_nat (length (fst st)) > 0") auto
  then show ?thesis unfolding rl_def .
qed

lemma priorityPass_no_groups: "priorityPass [] mf mpl prio st = st"
  by (induction prio arbitrary: st) (simp_all add: groups_get_def Let_def)

lemma secondPass_no_groups: "secondPass [] mf mpl prio st = st"
  by (simp add: secondPass_def)

lemma ceilDiv_5000_3: "ceilDiv 5000 3 = 1667"
proof -
  have "\<lceil>(5000::rat) / 3\<rceil> = 1667" by (rule ceiling_unique) simp_all
  then show ?thesis by (simp add: ceilDiv_def)
qed

lemma scenario_bounds:
  assumes n: "length (codeFilesOf files) = 10000"
    and langs: "length (groupFilesByLanguage dl (codeFilesOf files)) = 3"
    and opts: "options = \<lparr>maxFiles = Some 5000, maxPerLanguage = None,
                 prioritizeDiversity = Some True, priorityLanguages = Some [''Python'']\<rparr>"
  shows "of_nat (length (filter (\<lambda>f. dl (path f) = ''Python'') (samples (sampleCodeFiles dl files options))))
           \<le> min (of_nat (length (filter (\<lambda>f. dl (path f) = ''Python'') (codeFilesOf files))))
                 (min 100 (ceilDiv 5000 3)) \<and>
         length (samples (sampleCodeFiles dl files options)) \<le> 300"
proof -
  define C where "C = codeFilesOf files"
  define g where "g = groupFilesByLanguage dl C"
  define L where "L = groups_get g ''Python''"
  define P :: "FileEntry \<Rightarrow> bool" where "P = (\<lambda>f. dl (path f) = ''Python'')"
  define ts :: rat where "ts = min (of_nat (length L)) (min 100 (ceilDiv 5000 3))"
  define m where "m = min (length L) 100"
  define st1 where "st1 = sampleLoop 5000 (take (visited ts) L) ([], {})"
  define st2 where "st2 = secondPass g 5000 100 [''Python''] st1"
  have lg: "length g = 3" using langs by (simp add: g_def C_def)
  have L: "L = filter P C"
    unfolding L_def g_def C_def P_def groups_get_groupFiles codeFilesOf_idem ..
  have tsm: "ts = of_nat m"
    unfolding ts_def m_def ceilDiv_5000_3 by (simp add: min_def)
  have vts: "visited ts = m" unfolding tsm by (rule visited_of_nat)
  have m100: "m \<le> 100" by (simp add: m_def)
  have tsp: "toSamplePriority (length (groups_get g ''Python'')) 100 5000 (length g) = ts"
    unfolding lg by (simp add: toSamplePriority_def ts_def L_def)
  have big: "\<not> of_nat (length C) \<le> (5000::rat)" using n by (simp add: C_def)
  have smp: "samples (sampleCodeFiles dl files options) = fst st2"
    using big
    by (simp add: opts sampleCodeFiles_def Let_def C_def [symmetric] g_def [symmetric]
        tsp st2_def st1_def L_def)
  have c1: "length (filter Q (fst st1)) \<le> m" for Q
  proof -
    have "length (filter Q (fst st1)) \<le> length (filter Q (take m L))"
      using sampleLoop_count [of Q 5000 "take m L" "([], {})"] by (simp add: st1_def vts)
    also have "\<dots> \<le> length (take m L)" by (rule length_filter_le)
    also have "\<dots> \<le> m" by simp
    finally show ?thesis .
  qed
  define rl where "rl = filter (\<lambda>lang. lang \<notin> set [''Python'']) (map fst g)"
  have other: "\<forall>lang \<in> set rl. \<forall>f \<in> set (groups_get g lang). \<not> P f"
    unfolding g_def C_def groups_get_groupFiles codeFilesOf_idem
    by (auto simp: rl_def P_def)
  have sp: "st2 = st1 \<or> (\<exists>spl. st2 = remainingLoop g 5000 100 spl rl st1)"
    unfolding st2_def rl_def by (rule secondPass_cases)
  have c2: "length (filter P (fst st2)) \<le> length (filter P (fst st1))"
    using sp remainingLoop_count_other [OF other, of 5000 100 _ st1] by auto
  have v100: "visited 100 = 100" by (simp add: visited_def)
  have l2: "length (fst st2) \<le> length (fst st1) + length rl * 100"
    using sp remainingLoop_length [of g 5000 100 _ rl st1] by (auto simp: v100)
  have "length (filter P (fst st2)) \<le> m" using c1 [of P] c2 by linarith
  then have py: "(of_nat (length (filter P (fst st2))) :: rat) \<le> ts"
    unfolding tsm by (simp only: of_nat_le_iff)
  have tot: "length (fst st2) \<le> 300"
  proof (cases "''Python'' \<in> fst ` set g")
    case True
    then have "length rl < length (map fst g)"
      unfolding rl_def by (intro length_filter_less [of "''Python''"]) auto
    then have "length rl \<le> 2" using lg by simp
    moreover have "length (fst st1) \<le> 100"
      using c1 [of "\<lambda>_. True"] m100 by simp
    ultimately show ?thesis using l2 by linarith
  next
    case False
    then have "L = []" unfolding L_def by (rule groups_get_absent)
    then have "length (fst st1) = 0" using c1 [of "\<lambda>_. True"] by (simp add: m_def)
    moreover have "length rl \<le> 3"
      using length_filter_le [of _ "map fst g"] lg by (simp add: rl_def)
    ultimately show ?thesis using l2 by linarith
  qed
  show ?thesis using py tot smp by (simp add: ts_def L P_def C_def)
qed

subsection \<open>The 10,000-file scenario\<close>

lemma takeWhile_neq_append_sep:
  "c \<notin> set ys \<Longrightarrow> takeWhile (\<lambda>x. x \<noteq> c) (ys @ c # zs) = ys"
  by (induction ys) auto

lemma lastDotExtension_append:
  "CHR ''.'' \<notin> set e \<Longrightarrow> lastDotExtension (xs @ CHR ''.'' # e) = toLowerCase (CHR ''.'' # e)"
proof -
  assume e: "CHR ''.'' \<notin> set e"
  then have "CHR ''.'' \<notin> set (rev e)" by simp
  then have "takeWhile (\<lambda>c. c \<noteq> CHR ''.'') (rev e @ CHR ''.'' # rev xs) = rev e"
    by (rule takeWhile_neq_append_sep)
  then show ?thesis by (simp add: lastDotExtension_def)
qed

lemma scenario_py:
  "isCodeFile (xs @ ''.py'') \<and> detectLanguage_model (xs @ ''.py'') = ''Python''"
  using lastDotExtension_append [of "''py''" xs]
  by (simp add: isCodeFile_def detectLanguage_model_def getFileExtension_lastDot
      toLowerCase_def lowerChar_def CODE_FILE_EXTENSIONS_def)

lemma scenario_js:
  "isCodeFile (xs @ ''.js'') \<and> detectLanguage_model (xs @ ''.js'') = ''JavaScript''"
  using lastDotExtension_append [of "''js''" xs]
  by (simp add: isCodeFile_def detectLanguage_model_def getFileExtension_lastDot
      toLowerCase_def lowerChar_def CODE_FILE_EXTENSIONS_def)

lemma scenario_go:
  "isCodeFile (xs @ ''.go'') \<and> detectLanguage_model (xs @ ''.go'') = ''Go''"
  using lastDotExtension_append [of "''go''" xs]
  by (simp add: isCodeFile_def detectLanguage_model_def getFileExtension_lastDot
      toLowerCase_def lowerChar_def CODE_FILE_EXTENSIONS_def)

lemma scenarioEntry_path: "path (scenarioEntry c ext i) = replicate (Suc i) c @ ext"
  by (simp add: scenarioEntry_def extractedEntry_def)

lemma scenarioEntry_file: "\<not> isDirectory (scenarioEntry c ext i)"
  by (simp add: scenarioEntry_def extractedEntry_def)

lemma scenarioEntry_py:
  "isCodeFile (path (scenarioEntry c ''.py'' i)) \<and>
   detectLanguage_model (path (scenarioEntry c ''.py'' i)) = ''Python''"
  unfolding scenarioEntry_path by (rule scenario_py)

lemma scenarioEntry_js:
  "isCodeFile (path (scenarioEntry c ''.js'' i)) \<and>
   detectLanguage_model (path (scenarioEntry c ''.js'' i)) = ''JavaScript''"
  unfolding scenarioEntry_path by (rule scenario_js)

lemma scenarioEntry_go:
  "isCodeFile (path (scenarioEntry c ''.go'' i)) \<and>
   detectLanguage_model (path (scenarioEntry c ''.go'' i)) = ''Go''"
  unfolding scenarioEntry_path by (rule scenario_go)

lemma scenario_all_code: "codeFilesOf scenarioFiles = scenarioFiles"
  using scenarioEntry_py scenarioEntry_js scenarioEntry_go scenarioEntry_file
  by (auto simp: codeFilesOf_def scenarioFiles_def filter_id_conv)

lemma scenario_length: "length scenarioFiles = 10000"
  by (simp add: scenarioFiles_def)

lemma scenario_languages:
  "(\<lambda>f. detectLanguage_model (path f)) ` set scenarioFiles = {''Python'', ''JavaScript'', ''Go''}"
proof -
  have a: "(\<lambda>f. detectLanguage_model (path f)) ` set scenarioFiles \<subseteq> {''Python'', ''JavaScript'', ''Go''}"
    using scenarioEntry_py scenarioEntry_js scenarioEntry_go
    by (auto simp: scenarioFiles_def)
  have p: "scenarioEntry (CHR ''p'') ''.py'' 0 \<in> set scenarioFiles"
    unfolding scenarioFiles_def by (auto intro: bexI [where x = 0])
  have j: "scenarioEntry (CHR ''j'') ''.js'' 0 \<in> set scenarioFiles"
    unfolding scenarioFiles_def by (auto intro: bexI [where x = 0])
  have g: "scenarioEntry (CHR ''g'') ''.go'' 0 \<in> set scenarioFiles"
    unfolding scenarioFiles_def by (auto intro: bexI [where x = 0])
  have p': "''Python'' \<in> (\<lambda>f. detectLanguage_model (path f)) ` set scenarioFiles"
    using p scenarioEntry_py [of "CHR ''p''" 0] by (metis image_eqI)
  have j': "''JavaScript'' \<in> (\<lambda>f. detectLanguage_model (path f)) ` set scenarioFiles"
    using j scenarioEntry_js [of "CHR ''j''" 0] by (metis image_eqI)
  have g': "''Go'' \<in> (\<lambda>f. detectLanguage_model (path f)) ` set scenarioFiles"
    using g scenarioEntry_go [of "CHR ''g''" 0] by (metis image_eqI)
  from a p' j' g' show ?thesis by blast
qed

lemma scenario_groups:
  "length (groupFilesByLanguage detectLanguage_model (codeFilesOf scenarioFiles)) = 3"
  unfolding length_groupFiles codeFilesOf_idem scenario_all_code scenario_languages by simp

subsection \<open>The claims about the sampler\<close>

text \<open>
  Claim C2: when the number of non-directory files that pass \<open>isCodeFile\<close> is at most
  \<open>maxFiles\<close> (1000 when unspecified), \<open>samples\<close> is exactly that list of code files
  in its original order and \<open>remaining\<close> is empty. An input with no code files yields
  empty \<open>samples\<close>, whatever the options. The function has no failing branch: it
  throws nowhere, and a division by a zero \<open>languageGroups.size\<close> yields an infinity or
  \<open>NaN\<close>, under which no loop runs.
\<close>

theorem samples_within_limit:
  "(of_nat (length (codeFilesOf files)) \<le> (case maxFiles options of None \<Rightarrow> 1000 | Some v \<Rightarrow> v) \<longrightarrow>
      samples (sampleCodeFiles dl files options) = codeFilesOf files \<and>
      remaining (sampleCodeFiles dl files options) = []) \<and>
   (codeFilesOf files = [] \<longrightarrow>
      samples (sampleCodeFiles dl files options) = [] \<and>
      remaining (sampleCodeFiles dl files options) = [])"
proof -
  have a: "samples (sampleCodeFiles dl files options) = codeFilesOf files \<and>
           remaining (sampleCodeFiles dl files options) = []"
    if "of_nat (length (codeFilesOf files)) \<le> (case maxFiles options of None \<Rightarrow> 1000 | Some v \<Rightarrow> v)"
    using that by (simp add: sampleCodeFiles_def Let_def)
  have b: "samples (sampleCodeFiles dl files options) = [] \<and>
           remaining (sampleCodeFiles dl files options) = []"
    if "codeFilesOf files = []"
    using that
    by (simp add: sampleCodeFiles_def Let_def groupFilesByLanguage_def
        priorityPass_no_groups secondPass_no_groups)
  from a b show ?thesis by blast
qed

theorem samples_within_limit_witness:
  "of_nat (length (codeFilesOf samplerDemo)) \<le> (4::rat) \<and>
   map path (samples (sampleCodeFiles detectLanguage_model samplerDemo
       \<lparr>maxFiles = Some 4, maxPerLanguage = None, prioritizeDiversity = None,
        priorityLanguages = None\<rparr>)) = [''src/a.py'', ''src/b.js'', ''src/c.js'', ''src/d.py''] \<and>
   remaining (sampleCodeFiles detectLanguage_model samplerDemo
       \<lparr>maxFiles = Some 4, maxPerLanguage = None, prioritizeDiversity = None,
        priorityLanguages = None\<rparr>) = []"
proof -
  have c: "map path (codeFilesOf samplerDemo) = [''src/a.py'', ''src/b.js'', ''src/c.js'', ''src/d.py'']"
    by code_simp
  then have "length (codeFilesOf samplerDemo) = 4"
    using length_map [of path "codeFilesOf samplerDemo"] by simp
  then have l: "of_nat (length (codeFilesOf samplerDemo)) \<le> (4::rat)" by simp
  from l c samples_within_limit [of samplerDemo
      "\<lparr>maxFiles = Some 4, maxPerLanguage = None, prioritizeDiversity = None,
        priorityLanguages = None\<rparr>" detectLanguage_model]
  show ?thesis by simp
qed

text \<open>
  Claim C3, as stated, fails: \<open>maxFiles\<close> is a number, and with \<open>maxFiles = 2.5\<close> the test
  \<open>samples.length < maxFiles\<close> still passes when two files are sampled, so a third one is
  pushed and the samples exceed the budget.
\<close>

theorem samples_fractional_budget_counterexample:
  "distinct (map path samplerDemo) \<and> (0::rat) \<le> 5/2 \<and>
   map path (samples (sampleCodeFiles detectLanguage_model samplerDemo
       \<lparr>maxFiles = Some (5/2), maxPerLanguage = None, prioritizeDiversity = None,
        priorityLanguages = Some [''Python'']\<rparr>)) = [''src/a.py'', ''src/d.py'', ''src/b.js''] \<and>
   \<not> of_nat (length (samples (sampleCodeFiles detectLanguage_model samplerDemo
       \<lparr>maxFiles = Some (5/2), maxPerLanguage = None, prioritizeDiversity = None,
        priorityLanguages = Some [''Python'']\<rparr>))) \<le> (5/2::rat)"
proof -
  have d: "distinct (map path samplerDemo)" by code_simp
  have e: "map path (samples (sampleCodeFiles detectLanguage_model samplerDemo
       \<lparr>maxFiles = Some (5/2), maxPerLanguage = None, prioritizeDiversity = None,
        priorityLanguages = Some [''Python'']\<rparr>)) = [''src/a.py'', ''src/d.py'', ''src/b.js'']"
    by code_simp
  then have "length (samples (sampleCodeFiles detectLanguage_model samplerDemo
       \<lparr>maxFiles = Some (5/2), maxPerLanguage = None, prioritizeDiversity = None,
        priorityLanguages = Some [''Python'']\<rparr>)) = 3"
    using length_map [of path "samples (sampleCodeFiles detectLanguage_model samplerDemo
       \<lparr>maxFiles = Some (5/2), maxPerLanguage = None, prioritizeDiversity = None,
        priorityLanguages = Some [''Python'']\<rparr>)"] by simp
  then show ?thesis using d e by simp
qed

text \<open>
  Claim C3, amended: for an input with pairwise distinct paths and a non-negative
  \<open>maxFiles\<close>, the samples are non-directory code files of the input, no path occurs twice
  among them, and \<open>samples.length <= ceil(maxFiles)\<close>; so \<open>samples.length <= maxFiles\<close>
  whenever \<open>maxFiles\<close> is an integer.
\<close>

theorem samples_subset_distinct_bounded:
  assumes dist: "distinct (map path files)"
    and mf: "0 \<le> (case maxFiles options of None \<Rightarrow> 1000 | Some v \<Rightarrow> v)"
  shows "set (samples (sampleCodeFiles dl files options)) \<subseteq> set (codeFilesOf files) \<and>
         distinct (map path (samples (sampleCodeFiles dl files options))) \<and>
         int (length (samples (sampleCodeFiles dl files options)))
           \<le> \<lceil>case maxFiles options of None \<Rightarrow> 1000 | Some v \<Rightarrow> v\<rceil> \<and>
         (of_int \<lceil>case maxFiles options of None \<Rightarrow> 1000 | Some v \<Rightarrow> v\<rceil>
            = (case maxFiles options of None \<Rightarrow> 1000 | Some v \<Rightarrow> v) \<longrightarrow>
          of_nat (length (samples (sampleCodeFiles dl files options)))
            \<le> (case maxFiles options of None \<Rightarrow> 1000 | Some v \<Rightarrow> v))"
proof -
  define m where "m = (case maxFiles options of None \<Rightarrow> 1000 | Some v \<Rightarrow> v)"
  define mpl where "mpl = (case maxPerLanguage options of None \<Rightarrow> 100 | Some v \<Rightarrow> v)"
  define prio where "prio = (case priorityLanguages options of None \<Rightarrow> [] | Some v \<Rightarrow> v)"
  define C where "C = codeFilesOf files"
  define g where "g = groupFilesByLanguage dl C"
  define S where "S = samples (sampleCodeFiles dl files options)"
  have dC: "distinct (map path C)" unfolding C_def using dist by (rule distinct_paths_codeFilesOf)
  have m0: "0 \<le> m" using mf by (simp add: m_def)
  then have c0: "0 \<le> \<lceil>m\<rceil>" by simp
  have sub: "set (groups_get g lang) \<subseteq> set C" for lang
    unfolding g_def C_def groups_get_groupFiles codeFilesOf_idem by auto
  have div: "sampling_inv (set C) m (secondPass g m mpl prio (priorityPass g m mpl prio ([], {})))"
    by (intro secondPass_inv priorityPass_inv sampling_inv_init sub m0)
  have tr: "fst (truncateLoop m C ([], {})) = take (nat \<lceil>m\<rceil>) C"
    by (simp add: truncateLoop_fst)
  have trd: "distinct (map path (take (nat \<lceil>m\<rceil>) C))"
    using dC by (simp add: take_map [symmetric])
  have "length (take (nat \<lceil>m\<rceil>) C) \<le> nat \<lceil>m\<rceil>" by simp
  moreover have "int (nat \<lceil>m\<rceil>) = \<lceil>m\<rceil>" using c0 by (rule nat_0_le)
  ultimately have trl: "int (length (take (nat \<lceil>m\<rceil>) C)) \<le> \<lceil>m\<rceil>" by linarith
  have trs: "set (take (nat \<lceil>m\<rceil>) C) \<subseteq> set C" by (rule set_take_subset)
  have main: "set S \<subseteq> set C \<and> distinct (map path S) \<and> int (length S) \<le> \<lceil>m\<rceil>"
  proof (cases "of_nat (length C) \<le> m")
    case True
    have "(of_nat (length C) :: rat) \<le> of_int \<lceil>m\<rceil>"
      using True le_of_int_ceiling [of m] by (rule order_trans)
    then have "of_int (int (length C)) \<le> (of_int \<lceil>m\<rceil> :: rat)" by simp
    then have "int (length C) \<le> \<lceil>m\<rceil>" by (simp only: of_int_le_iff)
    moreover have "S = C"
      using True by (simp add: S_def sampleCodeFiles_def Let_def C_def [symmetric] m_def [symmetric])
    ultimately show ?thesis using dC by simp
  next
    case False
    show ?thesis
    proof (cases "case prioritizeDiversity options of None \<Rightarrow> True | Some v \<Rightarrow> v")
      case True
      with False div show ?thesis
        by (simp add: S_def sampleCodeFiles_def Let_def C_def [symmetric] m_def [symmetric]
            mpl_def [symmetric] prio_def [symmetric] g_def [symmetric] sampling_inv_def)
    next
      case nd: False
      with False tr trd trl trs show ?thesis
        by (simp add: S_def sampleCodeFiles_def Let_def C_def [symmetric] m_def [symmetric])
    qed
  qed
  have int_case: "of_nat (length S) \<le> m" if "of_int \<lceil>m\<rceil> = m"
  proof -
    have "(of_int (int (length S)) :: rat) \<le> of_int \<lceil>m\<rceil>"
      using main by (simp only: of_int_le_iff)
    then show ?thesis using that by simp
  qed
  show ?thesis
    using main int_case unfolding S_def C_def m_def by blast
qed

theorem samples_subset_distinct_bounded_witness:
  "distinct (map path samplerDemo) \<and>
   set (samples (sampleCodeFiles detectLanguage_model samplerDemo
       \<lparr>maxFiles = Some 3, maxPerLanguage = None, prioritizeDiversity = None,
        priorityLanguages = Some [''Python'']\<rparr>)) \<subseteq> set (codeFilesOf samplerDemo) \<and>
   distinct (map path (samples (sampleCodeFiles detectLanguage_model samplerDemo
       \<lparr>maxFiles = Some 3, maxPerLanguage = None, prioritizeDiversity = None,
        priorityLanguages = Some [''Python'']\<rparr>))) \<and>
   of_nat (length (samples (sampleCodeFiles detectLanguage_model samplerDemo
       \<lparr>maxFiles = Some 3, maxPerLanguage = None, prioritizeDiversity = None,
        priorityLanguages = Some [''Python'']\<rparr>))) \<le> (3::rat) \<and>
   map path (samples (sampleCodeFiles detectLanguage_model samplerDemo
       \<lparr>maxFiles = Some 3, maxPerLanguage = None, prioritizeDiversity = None,
        priorityLanguages = Some [''Python'']\<rparr>)) = [''src/a.py'', ''src/d.py'', ''src/b.js'']"
proof -
  have d: "distinct (map path samplerDemo)" by code_simp
  have e: "map path (samples (sampleCodeFiles detectLanguage_model samplerDemo
       \<lparr>maxFiles = Some 3, maxPerLanguage = None, prioritizeDiversity = None,
        priorityLanguages = Some [''Python'']\<rparr>)) = [''src/a.py'', ''src/d.py'', ''src/b.js'']"
    by code_simp
  from d e samples_subset_distinct_bounded [of samplerDemo
      "\<lparr>maxFiles = Some 3, maxPerLanguage = None, prioritizeDiversity = None,
        priorityLanguages = Some [''Python'']\<rparr>" detectLanguage_model]
  show ?thesis by simp
qed

text \<open>
  Claim C4, as stated, fails: on 10,000 code files in three languages, with
  \<open>maxFiles = 5000\<close>, the priority language Python and the default \<open>maxPerLanguage\<close>
  of 100, every language contributes at most 100 files, so the samples are not 5000.
\<close>

theorem scenario_not_5000_counterexample:
  "length (codeFilesOf scenarioFiles) = 10000 \<and>
   length (groupFilesByLanguage detectLanguage_model (codeFilesOf scenarioFiles)) = 3 \<and>
   length (samples (sampleCodeFiles detectLanguage_model scenarioFiles scenarioOptions)) \<noteq> 5000"
proof -
  have n: "length (codeFilesOf scenarioFiles) = 10000"
    unfolding scenario_all_code by (rule scenario_length)
  have "length (samples (sampleCodeFiles detectLanguage_model scenarioFiles scenarioOptions)) \<le> 300"
    using scenario_bounds [OF n scenario_groups scenarioOptions_def] by simp
  then show ?thesis using n scenario_groups by simp
qed

text \<open>
  Claim C4, amended: for every input of 10,000 code files in three languages, with
  \<open>maxFiles = 5000\<close>, \<open>priorityLanguages = ['Python']\<close>, \<open>prioritizeDiversity = true\<close>
  and \<open>maxPerLanguage\<close> left to its default 100, the number of Python files among the
  samples is at most \<open>min(available, maxPerLanguage, ceil(5000 / 3))\<close> and the samples
  are at most \<open>3 * maxPerLanguage = 300\<close>.
\<close>

theorem scenario_sample_sizes:
  assumes n: "length (codeFilesOf files) = 10000"
    and langs: "length (groupFilesByLanguage dl (codeFilesOf files)) = 3"
    and opts: "options = \<lparr>maxFiles = Some 5000, maxPerLanguage = None,
                 prioritizeDiversity = Some True, priorityLanguages = Some [''Python'']\<rparr>"
  shows "of_nat (length (filter (\<lambda>f. dl (path f) = ''Python'') (samples (sampleCodeFiles dl files options))))
           \<le> min (of_nat (length (filter (\<lambda>f. dl (path f) = ''Python'') (codeFilesOf files))))
                 (min 100 (ceilDiv 5000 3)) \<and>
         length (samples (sampleCodeFiles dl files options)) \<le> 300"
  using n langs opts by (rule scenario_bounds)

theorem scenario_sample_sizes_witness:
  "length (codeFilesOf scenarioFiles) = 10000 \<and>
   length (groupFilesByLanguage detectLanguage_model (codeFilesOf scenarioFiles)) = 3 \<and>
   length (filter (\<lambda>f. detectLanguage_model (path f) = ''Python'')
       (samples (sampleCodeFiles detectLanguage_model scenarioFiles scenarioOptions))) \<le> 100 \<and>
   length (samples (sampleCodeFiles detectLanguage_model scenarioFiles scenarioOptions)) \<le> 300"
proof -
  have n: "length (codeFilesOf scenarioFiles) = 10000"
    unfolding scenario_all_code by (rule scenario_length)
  from scenario_sample_sizes [OF n scenario_groups scenarioOptions_def] n scenario_groups
  show ?thesis by simp
qed

text \<open>
  Claim C5, as stated, fails: with \<open>maxPerLanguage = 0\<close> the cap
  \<open>min(langFiles.length, maxPerLanguage, ...)\<close> is zero and no file of the priority
  language is sampled, although one is present and \<open>maxFiles\<close> is 1.
\<close>

theorem priority_language_zero_cap_counterexample:
  "extractedEntry ''a.py'' ''x'' \<in> set [extractedEntry ''a.py'' ''x'', extractedEntry ''b.js'' ''y''] \<and>
   \<not> isDirectory (extractedEntry ''a.py'' ''x'') \<and>
   isCodeFile (path (extractedEntry ''a.py'' ''x'')) \<and>
   detectLanguage_model (path (extractedEntry ''a.py'' ''x'')) = ''Python'' \<and>
   samples (sampleCodeFiles detectLanguage_model
       [extractedEntry ''a.py'' ''x'', extractedEntry ''b.js'' ''y'']
       \<lparr>maxFiles = Some 1, maxPerLanguage = Some 0, prioritizeDiversity = Some True,
        priorityLanguages = Some [''Python'']\<rparr>) = []"
  by code_simp

text \<open>
  Claim C5, amended: with \<open>prioritizeDiversity = true\<close>, \<open>priorityLanguages = [A]\<close>,
  \<open>maxFiles \<ge> 1\<close>, \<open>maxPerLanguage \<ge> 1\<close> (each at its default when unspecified) and a
  non-directory code file of language \<open>A\<close> in the input, the samples include a file of
  language \<open>A\<close>.
\<close>

theorem priority_language_represented:
  assumes div: "prioritizeDiversity options = Some True"
    and prio: "priorityLanguages options = Some [A]"
    and mf: "1 \<le> (case maxFiles options of None \<Rightarrow> 1000 | Some v \<Rightarrow> v)"
    and mpl: "1 \<le> (case maxPerLanguage options of None \<Rightarrow> 100 | Some v \<Rightarrow> v)"
    and f: "f \<in> set files" "\<not> isDirectory f" "isCodeFile (path f)" "dl (path f) = A"
  shows "\<exists>h \<in> set (samples (sampleCodeFiles dl files options)). dl (path h) = A"
proof -
  define m where "m = (case maxFiles options of None \<Rightarrow> 1000 | Some v \<Rightarrow> v)"
  define ml where "ml = (case maxPerLanguage options of None \<Rightarrow> 100 | Some v \<Rightarrow> v)"
  define C where "C = codeFilesOf files"
  define g where "g = groupFilesByLanguage dl C"
  define L where "L = groups_get g A"
  have fC: "f \<in> set C" using f by (simp add: C_def codeFilesOf_def)
  show ?thesis
  proof (cases "of_nat (length C) \<le> m")
    case True
    then have "samples (sampleCodeFiles dl files options) = C"
      by (simp add: sampleCodeFiles_def Let_def C_def [symmetric] m_def [symmetric])
    then show ?thesis using fC f(4) by auto
  next
    case False
    have L: "L = filter (\<lambda>f. dl (path f) = A) C"
      unfolding L_def g_def C_def groups_get_groupFiles codeFilesOf_idem ..
    then have "f \<in> set L" using fC f(4) by simp
    then obtain h rest where hr: "L = h # rest" by (cases L) auto
    then have "h \<in> set (filter (\<lambda>f. dl (path f) = A) C)" using L by simp
    then have hA: "dl (path h) = A" by simp
    have gne: "g \<noteq> []"
    proof
      assume "g = []"
      then have "L = []" by (simp add: L_def groups_get_def)
      then show False using hr by simp
    qed
    define ts where "ts = toSamplePriority (length L) ml m (length g)"
    have "1 \<le> ceilDiv m (of_nat (length g))"
      using mf gne by (intro ceilDiv_ge_one) (simp_all add: m_def)
    then have "1 \<le> ts"
      using mpl gne hr by (simp add: ts_def toSamplePriority_def ml_def)
    then have "visited 1 \<le> visited ts" by (rule visited_le)
    then have "1 \<le> visited ts" by (simp add: visited_def)
    then obtain k where k: "visited ts = Suc k" by (cases "visited ts") auto
    define st1 where "st1 = priorityPass g m ml [A] ([], {})"
    have tk: "take (visited ts) L = h # take k rest" using k hr by simp
    have "st1 = sampleLoop m (take (visited ts) L) ([], {})"
      by (simp add: st1_def Let_def L_def ts_def)
    then have "st1 = sampleLoop m (take k rest) ([h], {path h})"
      unfolding tk using mf by (simp add: m_def)
    then obtain ys where ys: "fst st1 = [h] @ ys"
      using sampleLoop_extends [of m "take k rest" "([h], {path h})"] by auto
    obtain zs where zs: "fst (secondPass g m ml [A] st1) = fst st1 @ zs"
      using secondPass_extends by blast
    have "samples (sampleCodeFiles dl files options) = fst (secondPass g m ml [A] st1)"
      using False div prio
      by (simp add: sampleCodeFiles_def Let_def C_def [symmetric] m_def [symmetric]
          ml_def [symmetric] g_def [symmetric] st1_def)
    then have "h \<in> set (samples (sampleCodeFiles dl files options))"
      using ys zs by simp
    then show ?thesis using hA by blast
  qed
qed

theorem priority_language_represented_witness:
  "\<exists>h \<in> set (samples (sampleCodeFiles detectLanguage_model samplerDemo
       \<lparr>maxFiles = Some 1, maxPerLanguage = Some 1, prioritizeDiversity = Some True,
        priorityLanguages = Some [''JavaScript'']\<rparr>)). detectLanguage_model (path h) = ''JavaScript''"
proof -
  have m: "extractedEntry ''src/c.js'' ''z'' \<in> set samplerDemo" by (simp add: samplerDemo_def)
  have d: "\<not> isDirectory (extractedEntry ''src/c.js'' ''z'')" by (simp add: extractedEntry_def)
  have c: "isCodeFile (path (extractedEntry ''src/c.js'' ''z''))" by code_simp
  have l: "detectLanguage_model (path (extractedEntry ''src/c.js'' ''z'')) = ''JavaScript''"
    by code_simp
  from m d c l
    priority_language_represented
      [where options = "\<lparr>maxFiles = Some 1, maxPerLanguage = Some 1,
                prioritizeDiversity = Some True, priorityLanguages = Some [''JavaScript'']\<rparr>"
         and A = "''JavaScript''" and f = "extractedEntry ''src/c.js'' ''z''"
         and files = samplerDemo and dl = detectLanguage_model]
  show ?thesis by simp
qed

section \<open>The statistics aggregator\<close>

subsection \<open>Rounding to a double\<close>

lemma roundTiesToEven_close: "\<bar>of_int (roundTiesToEven r) - r\<bar> \<le> 1/2"
proof -
  have "of_int \<lfloor>r\<rfloor> \<le> r" and "r < of_int \<lfloor>r\<rfloor> + 1" by linarith+
  then show ?thesis by (auto simp: roundTiesToEven_def Let_def)
qed

lemma binade_le:
  assumes "0 < x"
  shows "2 powi (binade x) \<le> x"
proof -
  obtain p q where pq: "quotient_of x = (p, q)" by (cases "quotient_of x") auto
  have q: "0 < q" using pq by (rule quotient_of_denom_pos)
  have x: "x = of_int p / of_int q" using pq by (rule quotient_of_div)
  have p: "0 < p" using assms q x by (simp add: zero_less_divide_iff)
  define e where "e = bitlen p - bitlen q"
  show ?thesis
  proof (cases "2 powi e \<le> x")
    case True
    then show ?thesis by (simp add: binade_def pq e_def)
  next
    case False
    have bp: "1 \<le> bitlen p" using p by (auto simp: bitlen_alt_def)
    have "(2::int) ^ nat (bitlen p - 1) \<le> p" using bitlen_bounds [OF p] by simp
    then have "(of_int ((2::int) ^ nat (bitlen p - 1)) :: rat) \<le> of_int p"
      by (simp only: of_int_le_iff)
    then have lo: "(2::rat) powi (bitlen p - 1) \<le> of_int p"
      using bp by (simp add: power_int_def)
    have "q < (2::int) ^ nat (bitlen q)" using bitlen_bounds [OF q] by simp
    then have "(of_int q :: rat) < of_int ((2::int) ^ nat (bitlen q))"
      by (simp only: of_int_less_iff)
    then have hi: "of_int q \<le> (2::rat) powi (bitlen q)"
      using bitlen_nonneg [of q] by (simp add: power_int_def)
    have "(2::rat) powi (e - 1) = 2 powi (bitlen p - 1) / 2 powi (bitlen q)"
      unfolding e_def using power_int_diff [of "2::rat" "bitlen p - 1" "bitlen q"]
      by (simp add: algebra_simps)
    also have "\<dots> \<le> of_int p / of_int q"
      using lo hi q p by (intro frac_le) simp_all
    finally have le: "(2::rat) powi (e - 1) \<le> x" unfolding x .
    have b: "binade x = e - 1" using False by (simp add: binade_def pq e_def)
    show ?thesis unfolding b by (rule le)
  qed
qed

lemma roundToDouble_close:
  assumes "0 \<le> x"
  shows "\<bar>roundToDouble x - x\<bar> \<le> x / 2 ^ 53"
proof (cases "x = 0")
  case True
  then show ?thesis by (simp add: roundToDouble_def)
next
  case False
  then have pos: "0 < x" using assms by simp
  define u :: rat where "u = 2 powi (binade x - 52)"
  have u0: "0 < u" by (simp add: u_def)
  have "u = 2 powi (binade x) / 2 ^ 52"
    unfolding u_def using power_int_diff [of "2::rat" "binade x" 52] by simp
  then have ux: "u \<le> x / 2 ^ 52" using binade_le [OF pos] by (simp add: divide_right_mono)
  have "roundToDouble x - x = u * (of_int (roundTiesToEven (x / u)) - x / u)"
    using pos u0 by (simp add: roundToDouble_def Let_def u_def [symmetric] algebra_simps)
  then have "\<bar>roundToDouble x - x\<bar> = u * \<bar>of_int (roundTiesToEven (x / u)) - x / u\<bar>"
    using u0 by (simp add: abs_mult)
  also have "\<dots> \<le> u * (1/2)"
    using u0 roundTiesToEven_close [of "x / u"] by (intro mult_left_mono) simp_all
  also have "\<dots> \<le> x / 2 ^ 53" using ux by simp
  finally show ?thesis .
qed

lemma roundToDouble_nonneg: "0 \<le> roundToDouble x"
proof (cases "x \<le> 0")
  case True
  then show ?thesis by (simp add: roundToDouble_def)
next
  case False
  then have pos: "0 < x" by simp
  define u :: rat where "u = 2 powi (binade x - 52)"
  have u0: "0 < u" by (simp add: u_def)
  have "0 < x / u" using pos u0 by simp
  then have "0 \<le> roundTiesToEven (x / u)"
    by (auto simp: roundTiesToEven_def Let_def)
  then show ?thesis using pos u0 by (simp add: roundToDouble_def Let_def u_def [symmetric])
qed

text \<open>
  The percentage that the program computes for \<open>l\<close> of \<open>t\<close> lines is within one unit of
  the exact quotient \<open>100 * l / t\<close>.
\<close>

lemma percentageOf_close:
  assumes t: "0 < t" and lt: "l \<le> t"
  shows "\<bar>int t * percentageOf l t - 100 * int l\<bar> \<le> int t"
proof -
  define x :: rat where "x = of_nat l / of_nat t"
  have x0: "0 \<le> x" and x1: "x \<le> 1" using t lt by (simp_all add: x_def)
  define a where "a = roundToDouble x"
  define y where "y = roundToDouble (a * 100)"
  have a0: "0 \<le> a" unfolding a_def by (rule roundToDouble_nonneg)
  have ax: "\<bar>a - x\<bar> \<le> x / 2 ^ 53" unfolding a_def using x0 by (rule roundToDouble_close)
  then have ax': "\<bar>a - x\<bar> \<le> 1 / 2 ^ 53" using x1 by (simp add: field_simps)
  have small: "(1::rat) / 2 ^ 53 \<le> 1" by simp
  have a2: "a \<le> 2" using ax' small x1 by linarith
  have "\<bar>y - a * 100\<bar> \<le> a * 100 / 2 ^ 53"
    unfolding y_def using a0 by (intro roundToDouble_close) simp
  also have "\<dots> \<le> 200 / 2 ^ 53" using a2 by simp
  finally have ya: "\<bar>y - a * 100\<bar> \<le> 200 / 2 ^ 53" .
  have yx: "\<bar>y - 100 * x\<bar> \<le> 300 / 2 ^ 53" using ya ax' by linarith
  define k where "k = percentageOf l t"
  have k: "k = \<lfloor>y + 1/2\<rfloor>"
    by (simp add: k_def percentageOf_def Math_round_def y_def a_def x_def)
  have "of_int k \<le> y + 1/2" and "y + 1/2 < of_int k + 1" unfolding k by linarith+
  then have "\<bar>of_int k - y\<bar> \<le> 1/2" by linarith
  moreover have "(300::rat) / 2 ^ 53 \<le> 1/2" by simp
  ultimately have kx: "\<bar>of_int k - 100 * x\<bar> \<le> 1" using yx by linarith
  have tx: "of_nat t * x = (of_nat l :: rat)" using t by (simp add: x_def)
  have "(of_nat t :: rat) * (of_int k - 100 * x) = of_nat t * of_int k - 100 * (of_nat t * x)"
    by (simp add: algebra_simps)
  also have "\<dots> = of_nat t * of_int k - 100 * of_nat l" by (simp only: tx)
  also have "\<dots> = of_int (int t * k - 100 * int l)" by simp
  finally have e: "(of_nat t :: rat) * (of_int k - 100 * x) = of_int (int t * k - 100 * int l)" .
  have "\<bar>(of_nat t :: rat) * (of_int k - 100 * x)\<bar> = of_nat t * \<bar>of_int k - 100 * x\<bar>"
    by (simp add: abs_mult)
  also have "\<dots> \<le> of_nat t * 1"
    using kx by (intro mult_left_mono) simp_all
  finally have "\<bar>(of_int (int t * k - 100 * int l) :: rat)\<bar> \<le> of_int (int t)"
    unfolding e by simp
  then have "\<bar>int t * k - 100 * int l\<bar> \<le> int t"
    by (simp only: of_int_abs [symmetric] of_int_le_iff)
  then show ?thesis by (simp add: k_def)
qed

subsection \<open>The sum of the percentages\<close>

lemma statsUpdate_lines:
  "sum_list (map lineCount_lang (statsUpdate lang lc cc es)) = sum_list (map lineCount_lang es) + lc"
  by (induction es) auto

lemma statsLoop_lines:
  "statsLoop dl files st = (ls, tls, tcs, tfs) \<Longrightarrow>
   sum_list (map lineCount_lang (fst st)) = fst (snd st) \<Longrightarrow>
   sum_list (map lineCount_lang ls) = tls"
proof (induction files arbitrary: st)
  case Nil
  then show ?case by auto
next
  case (Cons f fs)
  obtain ls0 a b c where st: "st = (ls0, a, b, c)" by (cases st) auto
  show ?case
  proof (cases "isDirectory f")
    case True
    then show ?thesis using Cons.prems st Cons.IH [of st] by simp
  next
    case False
    define st' where "st' = (statsUpdate (dl (path f)) (case lineCount f of None \<Rightarrow> 0 | Some n \<Rightarrow> n)
        (length (content f)) ls0, a + (case lineCount f of None \<Rightarrow> 0 | Some n \<Rightarrow> n),
        b + length (content f), c + 1)"
    have 1: "statsLoop dl fs st' = (ls, tls, tcs, tfs)"
      using Cons.prems(1) False st by (simp add: Let_def st'_def)
    have 2: "sum_list (map lineCount_lang (fst st')) = fst (snd st')"
      using Cons.prems(2) st by (simp add: st'_def statsUpdate_lines)
    from Cons.IH [OF 1 2] show ?thesis .
  qed
qed

lemma sum_list_sort_key:
  fixes f :: "'a \<Rightarrow> int"
  shows "sum_list (map f (sort_key k xs)) = sum_list (map f xs)"
proof -
  have "sum_mset (mset (map f (sort_key k xs))) = sum_mset (mset (map f xs))" by simp
  then show ?thesis by (simp only: sum_mset_sum_list)
qed

lemma sum_list_int_map: "sum_list (map (\<lambda>e. int (g e)) ls) = int (sum_list (map g ls))"
  by (induction ls) auto

lemma percentage_deviation:
  fixes t :: int
  assumes "\<forall>x \<in> set xs. \<bar>t * p x - 100 * l x\<bar> \<le> t"
  shows "\<bar>t * sum_list (map p xs) - 100 * sum_list (map l xs)\<bar> \<le> int (length xs) * t"
  using assms
proof (induction xs)
  case Nil
  show ?case by simp
next
  case (Cons x xs)
  have a: "\<bar>t * p x - 100 * l x\<bar> \<le> t" using Cons.prems by simp
  have b: "\<bar>t * sum_list (map p xs) - 100 * sum_list (map l xs)\<bar> \<le> int (length xs) * t"
    using Cons by simp
  have "t * sum_list (map p (x # xs)) - 100 * sum_list (map l (x # xs)) =
        (t * p x - 100 * l x) + (t * sum_list (map p xs) - 100 * sum_list (map l xs))"
    by (simp add: algebra_simps)
  then have "\<bar>t * sum_list (map p (x # xs)) - 100 * sum_list (map l (x # xs))\<bar>
        \<le> \<bar>t * p x - 100 * l x\<bar> + \<bar>t * sum_list (map p xs) - 100 * sum_list (map l xs)\<bar>"
    by (simp only: abs_triangle_ineq)
  also have "\<dots> \<le> t + int (length xs) * t" using a b by linarith
  also have "\<dots> = int (length (x # xs)) * t" by (simp add: algebra_simps)
  finally show ?case .
qed

lemma languages_eq:
  assumes "statsLoop dl files ([], 0, 0, 0) = (ls, tls, tcs, tfs)"
  shows "languages (calculateRepositoryStats dl now files) =
           sort_key (\<lambda>l. - int (lineCount_lang l)) (map (setPercentage tls) ls)"
    and "totalLines (calculateRepositoryStats dl now files) = tls"
  using assms by (simp_all add: calculateRepositoryStats_def)

text \<open>
  Claim C9, as stated, fails: for an empty file list \<open>totalLines\<close> is 0, the
  \<open>languages\<close> list is empty and the sum of the percentages is 0, which is not within
  0 of 100. (Whenever \<open>totalLines\<close> is 0 the guard sets every percentage to 0.)
\<close>

theorem percentage_sum_empty_counterexample:
  "\<not> \<bar>percentageSum (calculateRepositoryStats detectLanguage_model
          ''2026-01-01T00:00:00.000Z'' []) - 100\<bar>
     \<le> int (length (languages (calculateRepositoryStats detectLanguage_model
          ''2026-01-01T00:00:00.000Z'' [])))"
  by (simp add: calculateRepositoryStats_def percentageSum_def)

text \<open>
  Claim C9, amended: for every input file list with \<open>totalLines > 0\<close>, the sum of the
  \<open>percentage\<close> fields over the \<open>languages\<close> list is within plus or minus the number
  of languages of 100; each percentage is \<open>Math.round((languageLines / totalLines) * 100)\<close>,
  computed in double precision, when \<open>totalLines > 0\<close>, and 0 when \<open>totalLines\<close> is 0.
  The double computation stays within 1 of the exact \<open>100 * languageLines / totalLines\<close>.
\<close>

theorem percentage_sum_near_100:
  "(0 < totalLines (calculateRepositoryStats dl now files) \<longrightarrow>
      \<bar>percentageSum (calculateRepositoryStats dl now files) - 100\<bar>
        \<le> int (length (languages (calculateRepositoryStats dl now files)))) \<and>
   (\<forall>lang \<in> set (languages (calculateRepositoryStats dl now files)).
      percentage lang =
        (if 0 < totalLines (calculateRepositoryStats dl now files)
         then Math_round (roundToDouble (roundToDouble
                (of_nat (lineCount_lang lang) /
                 of_nat (totalLines (calculateRepositoryStats dl now files))) * 100))
         else 0)) \<and>
   (\<forall>lang \<in> set (languages (calculateRepositoryStats dl now files)).
      0 < totalLines (calculateRepositoryStats dl now files) \<longrightarrow>
      \<bar>int (totalLines (calculateRepositoryStats dl now files)) * percentage lang
         - 100 * int (lineCount_lang lang)\<bar>
        \<le> int (totalLines (calculateRepositoryStats dl now files)))"
proof -
  obtain ls tls tcs tfs where sl: "statsLoop dl files ([], 0, 0, 0) = (ls, tls, tcs, tfs)"
    by (cases "statsLoop dl files ([], 0, 0, 0)") auto
  define R where "R = calculateRepositoryStats dl now files"
  have L: "languages R = sort_key (\<lambda>l. - int (lineCount_lang l)) (map (setPercentage tls) ls)"
    and T: "totalLines R = tls"
    unfolding R_def using languages_eq [OF sl] by simp_all
  have lines: "sum_list (map lineCount_lang ls) = tls"
    using statsLoop_lines [OF sl] by simp
  have part: "lineCount_lang e \<le> tls" if "e \<in> set ls" for e
  proof -
    from that have "lineCount_lang e \<in> set (map lineCount_lang ls)" by simp
    then have "lineCount_lang e \<le> sum_list (map lineCount_lang ls)"
      by (intro member_le_sum_list) simp_all
    then show ?thesis using lines by simp
  qed
  have each: "percentage lang = (if 0 < tls then percentageOf (lineCount_lang lang) tls else 0)"
    if "lang \<in> set (languages R)" for lang
  proof -
    from that obtain e where "e \<in> set ls" and "lang = setPercentage tls e"
      unfolding L by auto
    then show ?thesis by (simp add: setPercentage_def)
  qed
  have near: "\<bar>percentageSum R - 100\<bar> \<le> int (length (languages R))" if pos: "0 < tls"
  proof -
    have s: "percentageSum R = sum_list (map (\<lambda>e. percentageOf (lineCount_lang e) tls) ls)"
      unfolding percentageSum_def L sum_list_sort_key using pos
      by (simp add: setPercentage_def comp_def)
    have n: "length (languages R) = length ls" unfolding L by simp
    have "\<forall>e \<in> set ls. \<bar>int tls * percentageOf (lineCount_lang e) tls
              - 100 * int (lineCount_lang e)\<bar> \<le> int tls"
      using percentageOf_close [OF pos] part by blast
    then have "\<bar>int tls * sum_list (map (\<lambda>e. percentageOf (lineCount_lang e) tls) ls)
                - 100 * sum_list (map (\<lambda>e. int (lineCount_lang e)) ls)\<bar> \<le> int (length ls) * int tls"
      by (rule percentage_deviation)
    moreover have "sum_list (map (\<lambda>e. int (lineCount_lang e)) ls) = int tls"
      using lines by (simp add: sum_list_int_map)
    ultimately have "\<bar>int tls * (percentageSum R - 100)\<bar> \<le> int (length ls) * int tls"
      unfolding s by (simp add: algebra_simps)
    then have "int tls * \<bar>percentageSum R - 100\<bar> \<le> int tls * int (length ls)"
      using pos by (simp add: abs_mult mult.commute)
    then have "\<bar>percentageSum R - 100\<bar> \<le> int (length ls)"
      using pos by simp
    then show ?thesis using n by simp
  qed
  have close: "\<bar>int tls * percentage lang - 100 * int (lineCount_lang lang)\<bar> \<le> int tls"
    if m: "lang \<in> set (languages R)" and pos: "0 < tls" for lang
  proof -
    from m obtain e where e: "e \<in> set ls" "lang = setPercentage tls e"
      unfolding L by auto
    have "lineCount_lang lang = lineCount_lang e" using e(2) by (simp add: setPercentage_def)
    then have "lineCount_lang lang \<le> tls" using part [OF e(1)] by simp
    from percentageOf_close [OF pos this] each [OF m] pos show ?thesis by simp
  qed
  have "(0 < totalLines R \<longrightarrow> \<bar>percentageSum R - 100\<bar> \<le> int (length (languages R))) \<and>
        (\<forall>lang \<in> set (languages R). percentage lang =
           (if 0 < totalLines R then percentageOf (lineCount_lang lang) (totalLines R) else 0)) \<and>
        (\<forall>lang \<in> set (languages R). 0 < totalLines R \<longrightarrow>
           \<bar>int (totalLines R) * percentage lang - 100 * int (lineCount_lang lang)\<bar>
             \<le> int (totalLines R))"
    unfolding T using each near close by blast
  then show ?thesis unfolding R_def percentageOf_def .
qed

theorem percentage_sum_near_100_witness:
  "0 < totalLines (calculateRepositoryStats detectLanguage_model
         ''2026-01-01T00:00:00.000Z'' statsHalfway) \<and>
   map percentage (languages (calculateRepositoryStats detectLanguage_model
         ''2026-01-01T00:00:00.000Z'' statsHalfway)) = [57, 43] \<and>
   \<bar>percentageSum (calculateRepositoryStats detectLanguage_model
         ''2026-01-01T00:00:00.000Z'' statsHalfway) - 100\<bar> \<le> 2 \<and>
   map percentage (languages (calculateRepositoryStats detectLanguage_model
         ''2026-01-01T00:00:00.000Z'' statsDemo)) = [57, 29, 14]"
proof -
  have t: "totalLines (calculateRepositoryStats detectLanguage_model
         ''2026-01-01T00:00:00.000Z'' statsHalfway) = 40"
    by code_simp
  have p: "map percentage (languages (calculateRepositoryStats detectLanguage_model
         ''2026-01-01T00:00:00.000Z'' statsHalfway)) = [57, 43]"
    by code_simp
  have q: "map percentage (languages (calculateRepositoryStats detectLanguage_model
         ''2026-01-01T00:00:00.000Z'' statsDemo)) = [57, 29, 14]"
    by code_simp
  have n: "length (languages (calculateRepositoryStats detectLanguage_model
         ''2026-01-01T00:00:00.000Z'' statsHalfway)) = 2"
    using p length_map [of percentage "languages (calculateRepositoryStats detectLanguage_model
         ''2026-01-01T00:00:00.000Z'' statsHalfway)"] by simp
  from percentage_sum_near_100
      [of detectLanguage_model "''2026-01-01T00:00:00.000Z''" statsHalfway]
  have "0 < totalLines (calculateRepositoryStats detectLanguage_model
         ''2026-01-01T00:00:00.000Z'' statsHalfway) \<longrightarrow>
     \<bar>percentageSum (calculateRepositoryStats detectLanguage_model
         ''2026-01-01T00:00:00.000Z'' statsHalfway) - 100\<bar>
       \<le> int (length (languages (calculateRepositoryStats detectLanguage_model
         ''2026-01-01T00:00:00.000Z'' statsHalfway)))"
    by (rule conjunct1)
  with t p q n show ?thesis by simp
qed


end
